theory Spec2Isabelle
  imports Complex_Main "HOL-Library.Multiset"
begin

section \<open>Tensors\<close>

text \<open>
  The reducer (\<^verbatim>\<open>torch/csrc/distributed/c10d/reducer.cpp\<close>) handles tensors through the
  tensor library, whose sources are not part of the verified files.  A tensor handle is
  modelled by the metadata the reducer reads: the identity of its storage, the offset
  into it, sizes and strides, element type, device, layout, and the flag that the
  library caches for \<^verbatim>\<open>is_non_overlapping_and_dense()\<close>.  The number of elements of a
  tensor is the product of its sizes, a natural number; where the source computes with
  it in a \<^verbatim>\<open>size_t\<close> (the bytes of a bucket in \<^verbatim>\<open>compute_bucket_assignment_by_size\<close>) the
  reduction modulo \<open>2 ^ 64\<close> is written out.
\<close>

datatype scalar_type =
  kByte | kChar | kShort | kInt | kLong | kHalf | kFloat | kDouble | kBool | kBFloat16

datatype device_type = kCPU | kCUDA

datatype device = Device device_type int

datatype layout = kStrided | kSparse

record tensor =
  storage :: nat
  storage_offset :: nat
  sizes :: "nat list"
  strides :: "nat list"
  dtype :: scalar_type
  device :: device
  layout :: layout
  non_overlapping_and_dense :: bool

definition numel :: "tensor \<Rightarrow> nat" where
  "numel t = prod_list (sizes t)"

fun element_size_of :: "scalar_type \<Rightarrow> nat" where
  "element_size_of kByte = 1"
| "element_size_of kChar = 1"
| "element_size_of kShort = 2"
| "element_size_of kInt = 4"
| "element_size_of kLong = 8"
| "element_size_of kHalf = 2"
| "element_size_of kFloat = 4"
| "element_size_of kDouble = 8"
| "element_size_of kBool = 1"
| "element_size_of kBFloat16 = 2"

definition element_size :: "tensor \<Rightarrow> nat" where
  "element_size t = element_size_of (dtype t)"

definition is_sparse :: "tensor \<Rightarrow> bool" where
  "is_sparse t = (layout t = kSparse)"

section \<open>Errors and loops\<close>

text \<open>
  Every \<^verbatim>\<open>TORCH_CHECK\<close> and \<^verbatim>\<open>TORCH_INTERNAL_ASSERT\<close> of the source that can fail is a
  constructor of \<open>error\<close>, named after its message.  \<open>UndefinedBehaviour\<close> stands for
  an unchecked out-of-range read or write of a \<^verbatim>\<open>std::vector\<close> or of a tensor accessor:
  the source has no defined result there, and the model stops with this value instead of
  inventing one.  \<open>StdOutOfRange\<close> is the exception of \<^verbatim>\<open>std::vector::at\<close> and
  \<open>StdLengthError\<close> the one of \<^verbatim>\<open>std::vector::reserve\<close>.
\<close>

datatype error =
    AssertSparseFlagLength
  | AssertNoTensors
  | NoSupportForSparseTensors
  | UndefinedBehaviour
  | StdOutOfRange
  | OutOfRangeReplicaIndex
  | OutOfRangeVariableIndex
  | MarkedReadyTwiceUnusedHint
  | MarkedReadyTwice
  | GradTypeMismatch
  | AssertGradDevice
  | AssertGradNumel
  | SparseGradUndefined
  | SparseGradNotSparse
  | AssertBucketBeforeNext
  | InitializeDuringAutograd
  | EmptyBucketSpecified
  | SparseInMultiVariableBucket
  | OutOfRangeVariableSpecified
  | BucketDeviceMismatch
  | BucketDtypeMismatch
  | PriorReductionUnfinished
  | TensorShapeMismatch
  | TensorIndexOutOfRange
  | NegativeDimension
  | StdLengthError
  | AssertRebuiltSizes
  | AssertRebuiltParameterCount
  | CollectiveShapeMismatch

text \<open>
  A counted \<^verbatim>\<open>for\<close> loop whose body may throw: the body runs on each element in turn and the
  first error ends the loop.
\<close>

fun for_each :: "'i list \<Rightarrow> ('i \<Rightarrow> 's \<Rightarrow> error + 's) \<Rightarrow> 's \<Rightarrow> error + 's" where
  "for_each [] body s = Inr s"
| "for_each (i # rest) body s =
     (case body i s of Inl e \<Rightarrow> Inl e | Inr s' \<Rightarrow> for_each rest body s')"

section \<open>Bucket assignment\<close>

text \<open>
  \<^verbatim>\<open>compute_bucket_assignment_by_size\<close>.  The two hash tables of the source, keyed by
  \<^verbatim>\<open>BucketKey\<close> (element type and device), are maps; an iterator into
  \<^verbatim>\<open>bucket_size_limits\<close> is its position.  The order in which the final loop visits the
  accumulator table is fixed by the hash function and the table implementation, which
  are not part of the verified files: it is the parameter \<open>visit\<close>, a list of keys, and
  the loop emits the accumulators of the keys of \<open>visit\<close> that are in the table, in
  that order.  \<^verbatim>\<open>tensor_indices\<close> holds \<^verbatim>\<open>int64_t\<close> values which the source converts to
  \<^verbatim>\<open>size_t\<close>.  The size of an accumulator is a \<^verbatim>\<open>size_t\<close>:
  \<^verbatim>\<open>bucket.size += tensor.numel() * tensor.element_size()\<close> wraps at \<open>2 ^ 64\<close>.
\<close>

datatype bucket_key = BucketKey scalar_type device

definition tensor_key :: "tensor \<Rightarrow> bucket_key" where
  "tensor_key t = BucketKey (dtype t) (device t)"

record bucket_accumulator =
  acc_indices :: "nat list"
  acc_size :: nat

definition BucketAccumulator :: bucket_accumulator where
  "BucketAccumulator = \<lparr>acc_indices = [], acc_size = 0\<rparr>"

record assignment =
  result :: "nat list list"
  bucket_size_limit_iterators :: "bucket_key \<rightharpoonup> nat"
  accumulators :: "bucket_key \<rightharpoonup> bucket_accumulator"

definition size_t_of_int64 :: "int \<Rightarrow> nat" where
  "size_t_of_int64 v = nat (v mod 2 ^ 64)"

definition size_t_of_nat :: "nat \<Rightarrow> nat" where
  "size_t_of_nat n = nat (int n mod 2 ^ 64)"

definition tensor_index_at :: "int list \<Rightarrow> nat \<Rightarrow> error + nat" where
  "tensor_index_at tensor_indices i =
     (if tensor_indices = [] then Inr i
      else if i < length tensor_indices then Inr (size_t_of_int64 (tensor_indices ! i))
      else Inl UndefinedBehaviour)"

definition assign_tensor ::
  "tensor list \<Rightarrow> nat list \<Rightarrow> bool list \<Rightarrow> int list \<Rightarrow> nat \<Rightarrow> assignment \<Rightarrow> error + assignment"
where
  "assign_tensor tensors bucket_size_limits expect_sparse_gradient tensor_indices i st =
     (let tensor = tensors ! i in
      if is_sparse tensor then Inl NoSupportForSparseTensors
      else
        case tensor_index_at tensor_indices i of
          Inl e \<Rightarrow> Inl e
        | Inr tensor_index \<Rightarrow>
            if expect_sparse_gradient \<noteq> [] \<and> \<not> tensor_index < length expect_sparse_gradient
            then Inl UndefinedBehaviour
            else if expect_sparse_gradient \<noteq> [] \<and> expect_sparse_gradient ! tensor_index
            then Inr (st\<lparr>result := result st @ [[tensor_index]]\<rparr>)
            else
              let key = BucketKey (dtype tensor) (device tensor);
                  bucket0 = (case accumulators st key of
                               None \<Rightarrow> BucketAccumulator | Some b \<Rightarrow> b);
                  bucket = bucket0\<lparr>acc_indices := acc_indices bucket0 @ [tensor_index],
                                  acc_size := size_t_of_nat
                                    (acc_size bucket0 + numel tensor * element_size tensor)\<rparr>;
                  it = (case bucket_size_limit_iterators st key of
                          None \<Rightarrow> 0 | Some p \<Rightarrow> p)
              in
                if \<not> it < length bucket_size_limits then Inl UndefinedBehaviour
                else if acc_size bucket \<ge> bucket_size_limits ! it
                then Inr (st\<lparr>result := result st @ [acc_indices bucket],
                             accumulators := (accumulators st)(key \<mapsto> BucketAccumulator),
                             bucket_size_limit_iterators :=
                               (bucket_size_limit_iterators st)
                                 (key \<mapsto> (if it + 1 \<noteq> length bucket_size_limits
                                           then it + 1 else it))\<rparr>)
                else Inr (st\<lparr>accumulators := (accumulators st)(key \<mapsto> bucket),
                             bucket_size_limit_iterators :=
                               (bucket_size_limit_iterators st)(key \<mapsto> it)\<rparr>))"

definition remaining_buckets :: "bucket_key list \<Rightarrow> assignment \<Rightarrow> nat list list" where
  "remaining_buckets visit st =
     concat (map (\<lambda>key. case accumulators st key of
                           None \<Rightarrow> []
                         | Some bucket \<Rightarrow>
                             if acc_indices bucket \<noteq> [] then [acc_indices bucket] else [])
                 visit)"

definition compute_bucket_assignment_by_size ::
  "bucket_key list \<Rightarrow> tensor list \<Rightarrow> nat list \<Rightarrow> bool list \<Rightarrow> int list \<Rightarrow> error + nat list list"
where
  "compute_bucket_assignment_by_size visit tensors bucket_size_limits expect_sparse_gradient
       tensor_indices =
     (if \<not> (expect_sparse_gradient = [] \<or> length tensors = length expect_sparse_gradient)
      then Inl AssertSparseFlagLength
      else if \<not> length tensors > 0 then Inl AssertNoTensors
      else
        case for_each [0..<length tensors]
               (assign_tensor tensors bucket_size_limits expect_sparse_gradient tensor_indices)
               \<lparr>result = [], bucket_size_limit_iterators = Map.empty,
                accumulators = Map.empty\<rparr> of
          Inl e \<Rightarrow> Inl e
        | Inr st \<Rightarrow>
            (let buckets = result st @ remaining_buckets visit st
             in Inr (if tensor_indices = [] then sort_key min_list buckets else buckets)))"

subsection \<open>Well-formed inputs and the shape of the result\<close>

text \<open>
  \<open>recorded_index\<close> is the index under which the tensor at input position \<open>i\<close> is
  recorded (\<^verbatim>\<open>tensor_index\<close> in the source); \<open>sparse_flagged\<close> reads the flag vector at a
  recorded index.  \<open>assignment_defined\<close> collects what the source needs for a defined,
  successful run: both assertions hold, no tensor has sparse layout, there is a budget
  to dereference, explicit indices (when given) come one per tensor and stay inside a
  non-empty flag vector, and \<open>visit\<close> lists every key of the table once.
\<close>

definition recorded_index :: "int list \<Rightarrow> nat \<Rightarrow> nat" where
  "recorded_index tensor_indices i =
     (if tensor_indices = [] then i else size_t_of_int64 (tensor_indices ! i))"

definition sparse_flagged :: "bool list \<Rightarrow> nat \<Rightarrow> bool" where
  "sparse_flagged expect_sparse_gradient x =
     (expect_sparse_gradient \<noteq> [] \<and> expect_sparse_gradient ! x)"

definition indices_ok :: "nat \<Rightarrow> bool list \<Rightarrow> int list \<Rightarrow> bool" where
  "indices_ok n flags tensor_indices =
     (tensor_indices = [] \<or>
      (length tensor_indices = n \<and>
       (flags \<noteq> [] \<longrightarrow> (\<forall>v\<in>set tensor_indices. size_t_of_int64 v < length flags))))"

definition assignment_defined ::
  "bucket_key list \<Rightarrow> tensor list \<Rightarrow> nat list \<Rightarrow> bool list \<Rightarrow> int list \<Rightarrow> bool" where
  "assignment_defined visit tensors limits flags tensor_indices =
     (tensors \<noteq> [] \<and> limits \<noteq> [] \<and> (flags = [] \<or> length tensors = length flags) \<and>
      (\<forall>t\<in>set tensors. \<not> is_sparse t) \<and> indices_ok (length tensors) flags tensor_indices \<and>
      distinct visit \<and> (\<forall>t\<in>set tensors. tensor_key t \<in> set visit))"

definition distinct_indices :: "nat \<Rightarrow> int list \<Rightarrow> bool" where
  "distinct_indices n tensor_indices = distinct (map (recorded_index tensor_indices) [0..<n])"

definition iterators_ok :: "nat list \<Rightarrow> assignment \<Rightarrow> bool" where
  "iterators_ok limits st =
     (\<forall>key p. bucket_size_limit_iterators st key = Some p \<longrightarrow> p < length limits)"

definition pending_indices :: "assignment \<Rightarrow> bucket_key \<Rightarrow> nat list" where
  "pending_indices st key =
     (case accumulators st key of None \<Rightarrow> [] | Some b \<Rightarrow> acc_indices b)"

definition sparse_bucket :: "tensor list \<Rightarrow> bool list \<Rightarrow> int list \<Rightarrow> nat list \<Rightarrow> bool" where
  "sparse_bucket tensors flags tidx b =
     (\<exists>i<length tensors. b = [recorded_index tidx i] \<and>
        sparse_flagged flags (recorded_index tidx i))"

definition dense_bucket ::
  "tensor list \<Rightarrow> bool list \<Rightarrow> int list \<Rightarrow> bucket_key \<Rightarrow> nat list \<Rightarrow> bool" where
  "dense_bucket tensors flags tidx key b =
     (\<forall>x\<in>set b. \<not> sparse_flagged flags x \<and>
        (\<exists>i<length tensors. recorded_index tidx i = x \<and> tensor_key (tensors ! i) = key))"

text \<open>The loop invariant after the positions \<open>ps\<close> have been processed.\<close>

definition assign_inv ::
  "bucket_key list \<Rightarrow> tensor list \<Rightarrow> nat list \<Rightarrow> bool list \<Rightarrow> int list \<Rightarrow> nat list \<Rightarrow>
   assignment \<Rightarrow> bool" where
  "assign_inv visit tensors limits flags tidx ps st =
     (iterators_ok limits st \<and>
      mset (concat (result st)) + mset (concat (map (pending_indices st) visit))
        = mset (map (recorded_index tidx) ps) \<and>
      (\<forall>key. key \<notin> set visit \<longrightarrow> accumulators st key = None) \<and>
      [] \<notin> set (result st) \<and>
      (\<forall>i\<in>set ps. sparse_flagged flags (recorded_index tidx i) \<longrightarrow>
          [recorded_index tidx i] \<in> set (result st)) \<and>
      (\<forall>b\<in>set (result st). sparse_bucket tensors flags tidx b \<or>
          (\<exists>key. dense_bucket tensors flags tidx key b)) \<and>
      (\<forall>key. dense_bucket tensors flags tidx key (pending_indices st key)))"

definition assignment_post :: "tensor list \<Rightarrow> bool list \<Rightarrow> int list \<Rightarrow> nat list list \<Rightarrow> bool" where
  "assignment_post tensors flags tidx bs =
     (mset (concat bs) = mset (map (recorded_index tidx) [0..<length tensors]) \<and>
      [] \<notin> set bs \<and>
      (\<forall>i<length tensors. sparse_flagged flags (recorded_index tidx i) \<longrightarrow>
          [recorded_index tidx i] \<in> set bs) \<and>
      (\<forall>b\<in>set bs. sparse_bucket tensors flags tidx b \<or>
          (\<exists>key. dense_bucket tensors flags tidx key b)))"

subsection \<open>The assignment as the specification words it\<close>

text \<open>
  The reference algorithm, written from the specification's description and not from the
  source.  Its input is the list of tensors, each with its own sparse flag and with the
  index under which it is recorded; sizes are natural numbers.  There is one record per
  \<open>(dtype, device)\<close> group holding the accumulator, the running size and the budget
  pointer.  A tensor whose sparse flag is set is emitted as a singleton at once;
  otherwise the index joins its group, the bytes are added, and when the running size
  reaches the current budget the accumulator is emitted, the group is reset and the
  pointer moves on, clamped at the last budget.  Afterwards the non-empty accumulators
  are emitted, and the buckets are sorted by their minimum index exactly when no explicit
  indices were given.  In \<open>reference_assignment\<close> the flag of the tensor at position \<open>i\<close>
  is the \<open>i\<close>-th flag (no tensor is flagged when the flag vector is empty), and its index
  is the \<open>i\<close>-th explicit index, or \<open>i\<close> when there are none.
\<close>

record group =
  accumulator :: "nat list"
  running_size :: nat
  budget_pointer :: nat

definition empty_group :: group where
  "empty_group = \<lparr>accumulator = [], running_size = 0, budget_pointer = 0\<rparr>"

fun reference_emit ::
  "nat list \<Rightarrow> (bool \<times> nat \<times> tensor) list \<Rightarrow> (bucket_key \<Rightarrow> group) \<Rightarrow>
   nat list list \<times> (bucket_key \<Rightarrow> group)" where
  "reference_emit budgets [] groups = ([], groups)"
| "reference_emit budgets ((sparse, index, t) # rest) groups =
     (if sparse
      then (case reference_emit budgets rest groups of
              (bs, groups') \<Rightarrow> ([index] # bs, groups'))
      else
        let key = BucketKey (dtype t) (device t);
            g = groups key;
            acc = accumulator g @ [index];
            total_bytes = running_size g + numel t * element_size t
        in if total_bytes \<ge> budgets ! budget_pointer g
           then (case reference_emit budgets rest
                        (groups(key := \<lparr>accumulator = [], running_size = 0,
                                         budget_pointer =
                                           min (budget_pointer g + 1) (length budgets - 1)\<rparr>)) of
                   (bs, groups') \<Rightarrow> (acc # bs, groups'))
           else reference_emit budgets rest
                  (groups(key := g\<lparr>accumulator := acc, running_size := total_bytes\<rparr>)))"

definition reference_buckets ::
  "bucket_key list \<Rightarrow> nat list \<Rightarrow> bool \<Rightarrow> (bool \<times> nat \<times> tensor) list \<Rightarrow> nat list list" where
  "reference_buckets visit budgets by_minimum items =
     (let (emitted, groups) = reference_emit budgets items (\<lambda>key. empty_group);
          leftover = filter (\<lambda>b. b \<noteq> []) (map (\<lambda>key. accumulator (groups key)) visit);
          buckets = emitted @ leftover
      in if by_minimum then sort_key min_list buckets else buckets)"

definition reference_assignment ::
  "bucket_key list \<Rightarrow> tensor list \<Rightarrow> nat list \<Rightarrow> bool list \<Rightarrow> int list \<Rightarrow> nat list list" where
  "reference_assignment visit tensors budgets flags explicit =
     reference_buckets visit budgets (explicit = [])
       (zip (if flags = [] then replicate (length tensors) False else flags)
            (zip (if explicit = [] then [0..<length tensors] else map size_t_of_int64 explicit)
                 tensors))"

text \<open>The group record that corresponds to the two tables of the source at a key.\<close>

definition group_of :: "assignment \<Rightarrow> bucket_key \<Rightarrow> group" where
  "group_of st key =
     \<lparr>accumulator = (case accumulators st key of None \<Rightarrow> [] | Some b \<Rightarrow> acc_indices b),
      running_size = (case accumulators st key of None \<Rightarrow> 0 | Some b \<Rightarrow> acc_size b),
      budget_pointer = (case bucket_size_limit_iterators st key of None \<Rightarrow> 0 | Some p \<Rightarrow> p)\<rparr>"

text \<open>
  \<open>bytes_of\<close> is what a tensor adds to the size of its accumulator.  \<open>item_at\<close> is the
  tensor at position \<open>i\<close> as the source treats it: with the flag that the flag vector
  holds at its recorded index, and with that index.
\<close>

definition bytes_of :: "tensor \<Rightarrow> nat" where
  "bytes_of t = numel t * element_size t"

definition item_at :: "tensor list \<Rightarrow> bool list \<Rightarrow> int list \<Rightarrow> nat \<Rightarrow> bool \<times> nat \<times> tensor" where
  "item_at tensors flags tidx i =
     (sparse_flagged flags (recorded_index tidx i), recorded_index tidx i, tensors ! i)"

section \<open>Tensor contents\<close>

text \<open>
  Modelled from the spec: the tensor library (\<^verbatim>\<open>copy_\<close>, \<^verbatim>\<open>mul_out\<close>, \<^verbatim>\<open>div_\<close>, \<^verbatim>\<open>zero_\<close>,
  \<^verbatim>\<open>is_alias_of\<close>, \<^verbatim>\<open>type_equal\<close>, \<^verbatim>\<open>as_strided\<close>, \<^verbatim>\<open>narrow\<close>, \<^verbatim>\<open>view\<close>, \<^verbatim>\<open>empty\<close>) is
  not under the verified files; the specification names it as an external collaborator
  with the operations shape, stride, dtype, device, copy, div, zero, narrow and
  as_strided.  The memory is a map from a storage and a position in it to the number
  that the element there represents.  A tensor's elements, in row-major logical order,
  sit at \<open>element_offsets\<close> (a dimension without a stride of its own, which no tensor of
  the library has, counts with stride 0); two tensors alias when they share the storage.  The
  elementwise operations pair the elements of their operands in logical order; the
  reducer asserts equal numbers of elements before it multiplies or copies a gradient
  into a bucket view, and the library's broadcasting and resizing are left out.

  The rounding of the element types is not fixed here: it is the parameter
  \<open>arithmetic\<close>, which gives, for an element type, the product and the quotient of two
  values as the hardware computes them in that type.
\<close>

type_synonym memory = "nat \<Rightarrow> nat \<Rightarrow> real"

fun offsets_from :: "nat \<Rightarrow> nat list \<Rightarrow> nat list \<Rightarrow> nat list" where
  "offsets_from base [] sts = [base]"
| "offsets_from base (n # ns) [] =
     concat (map (\<lambda>k. offsets_from base ns []) [0..<n])"
| "offsets_from base (n # ns) (st # sts) =
     concat (map (\<lambda>k. offsets_from (base + k * st) ns sts) [0..<n])"

definition element_offsets :: "tensor \<Rightarrow> nat list" where
  "element_offsets t = offsets_from (storage_offset t) (sizes t) (strides t)"

definition read_tensor :: "memory \<Rightarrow> tensor \<Rightarrow> real list" where
  "read_tensor mem t = map (mem (storage t)) (element_offsets t)"

fun write_at :: "nat \<Rightarrow> (nat \<times> real) list \<Rightarrow> memory \<Rightarrow> memory" where
  "write_at sid [] mem = mem"
| "write_at sid ((pos, v) # rest) mem = write_at sid rest (mem(sid := (mem sid)(pos := v)))"

definition write_tensor :: "tensor \<Rightarrow> real list \<Rightarrow> memory \<Rightarrow> memory" where
  "write_tensor t vs mem = write_at (storage t) (zip (element_offsets t) vs) mem"

definition is_alias_of :: "tensor \<Rightarrow> tensor \<Rightarrow> bool" where
  "is_alias_of a b = (storage a = storage b)"

fun device_type_of :: "device \<Rightarrow> device_type" where
  "device_type_of (Device ty index) = ty"

definition type_equal :: "tensor \<Rightarrow> tensor \<Rightarrow> bool" where
  "type_equal a b =
     (dtype a = dtype b \<and> layout a = layout b \<and>
      device_type_of (device a) = device_type_of (device b))"

record arithmetic =
  fmul :: "scalar_type \<Rightarrow> real \<Rightarrow> real \<Rightarrow> real"
  fdiv :: "scalar_type \<Rightarrow> real \<Rightarrow> real \<Rightarrow> real"

definition copy_tensor :: "tensor \<Rightarrow> tensor \<Rightarrow> memory \<Rightarrow> memory" where
  "copy_tensor dst src mem = write_tensor dst (read_tensor mem src) mem"

definition mul_out :: "arithmetic \<Rightarrow> tensor \<Rightarrow> tensor \<Rightarrow> real \<Rightarrow> memory \<Rightarrow> memory" where
  "mul_out ar out self wrapped mem =
     write_tensor out (map (\<lambda>x. fmul ar (dtype out) x wrapped) (read_tensor mem self)) mem"

definition div_tensor :: "arithmetic \<Rightarrow> tensor \<Rightarrow> real \<Rightarrow> memory \<Rightarrow> memory" where
  "div_tensor ar t d mem =
     write_tensor t (map (\<lambda>x. fdiv ar (dtype t) x d) (read_tensor mem t)) mem"

definition zero_tensor :: "tensor \<Rightarrow> memory \<Rightarrow> memory" where
  "zero_tensor t mem = write_tensor t (map (\<lambda>x. 0) (read_tensor mem t)) mem"

fun contiguous_strides :: "nat list \<Rightarrow> nat list" where
  "contiguous_strides [] = []"
| "contiguous_strides (n # ns) = prod_list (map (max 1) ns) # contiguous_strides ns"

definition as_strided :: "tensor \<Rightarrow> nat list \<Rightarrow> nat list \<Rightarrow> nat \<Rightarrow> tensor" where
  "as_strided t new_sizes new_strides offset =
     t\<lparr>storage_offset := offset, sizes := new_sizes, strides := new_strides\<rparr>"

definition narrow_view :: "tensor \<Rightarrow> nat \<Rightarrow> nat list \<Rightarrow> tensor" where
  "narrow_view t offset new_sizes =
     t\<lparr>storage_offset := storage_offset t + offset, sizes := new_sizes,
       strides := contiguous_strides new_sizes, non_overlapping_and_dense := True\<rparr>"

definition empty_tensor :: "nat \<Rightarrow> nat \<Rightarrow> scalar_type \<Rightarrow> device \<Rightarrow> tensor" where
  "empty_tensor sid n ty dev =
     \<lparr>storage = sid, storage_offset = 0, sizes = [n], strides = [1], dtype = ty,
      device = dev, layout = kStrided, non_overlapping_and_dense = True\<rparr>"

subsection \<open>Correctly rounded arithmetic\<close>

text \<open>
  An instance of \<open>arithmetic\<close> for the examples: the product and the quotient rounded to
  the nearest number with the significand length of the element type (53 bits for
  \<^verbatim>\<open>double\<close>, 24 for \<^verbatim>\<open>float\<close>, 11 for \<^verbatim>\<open>half\<close>, 8 for \<^verbatim>\<open>bfloat16\<close>), ties to the even
  significand, as IEEE 754 prescribes.  The exponent is not bounded, so overflow and
  subnormal numbers are outside this instance; the integer types, which hold no
  gradients, are given the arithmetic of \<^verbatim>\<open>double\<close>.  \<open>binade x\<close> is the exponent \<open>e\<close> with
  \<open>2 ^ e \<le> x < 2 ^ (e + 1)\<close> for positive \<open>x\<close>.
\<close>

function bit_length :: "int \<Rightarrow> int" where
  "bit_length n = (if n \<le> 0 then 0 else 1 + bit_length (n div 2))"
  by pat_completeness auto
termination
  by (relation "measure nat") auto

declare bit_length.simps [simp del]

definition binade :: "real \<Rightarrow> int" where
  "binade x = (if 1 \<le> x then bit_length \<lfloor>x\<rfloor> - 1 else - bit_length (\<lceil>1 / x\<rceil> - 1))"

definition scale :: "int \<Rightarrow> real" where
  "scale k = (if 0 \<le> k then 2 ^ nat k else 1 / 2 ^ nat (- k))"

definition nearest_even :: "real \<Rightarrow> int" where
  "nearest_even x =
     (let f = \<lfloor>x\<rfloor>; d = x - of_int f
      in if d < 1 / 2 then f else if 1 / 2 < d then f + 1 else if even f then f else f + 1)"

definition round_to :: "nat \<Rightarrow> real \<Rightarrow> real" where
  "round_to p x =
     (if x = 0 then 0
      else let a = \<bar>x\<bar>; k = int p - 1 - binade a
           in sgn x * of_int (nearest_even (a * scale k)) / scale k)"

fun significand_bits :: "scalar_type \<Rightarrow> nat" where
  "significand_bits kHalf = 11"
| "significand_bits kBFloat16 = 8"
| "significand_bits kFloat = 24"
| "significand_bits ty = 53"

definition ieee_arithmetic :: arithmetic where
  "ieee_arithmetic =
     \<lparr>fmul = (\<lambda>ty x y. round_to (significand_bits ty) (x * y)),
      fdiv = (\<lambda>ty x y. round_to (significand_bits ty) (x / y))\<rparr>"


section \<open>The reducer\<close>

text \<open>
  The structs of \<^verbatim>\<open>reducer.h\<close> as records.  A member name loses its trailing underscore;
  \<^verbatim>\<open>Bucket::replicas\<close> and \<^verbatim>\<open>Bucket::pending\<close> are \<open>bucket_replicas\<close> and
  \<open>bucket_pending\<close>, since \<open>replicas\<close> and \<open>pending\<close> name the reducer's replicas and the
  counter of a bucket replica.  An \<^verbatim>\<open>at::Tensor\<close> that may be undefined is a
  \<open>tensor option\<close>.  A variable is a parameter tensor together with the identity of its
  gradient slot; the gradients live in \<open>grads\<close>, which stands for
  \<^verbatim>\<open>variable.mutable_grad()\<close> or for the gradient held by the distributed autograd
  context, whichever \<^verbatim>\<open>runGradCallbackForVariable\<close> reaches.

  The reducer's environment is part of the state: the memory, the next fresh storage,
  the size of the process group, and the sequence of collective operations handed to the
  process group or to the communication hook.  A work handle is the position of its
  operation in that sequence.  \<open>queued_finalize\<close> counts the \<^verbatim>\<open>finalize_backward\<close>
  callbacks queued on the autograd engine.  Profiling timestamps
  (\<^verbatim>\<open>backward_stats_\<close>), device streams and the mutex are not part of the state: they
  carry no information that the functions modelled here read.
\<close>

record VariableIndex =
  replica_index :: nat
  variable_index :: nat

record VariableLocator =
  bucket_index :: nat
  intra_bucket_index :: nat

record variable =
  grad_slot :: nat
  param :: tensor

record BucketReplica =
  contents :: "tensor option"
  bucket_views :: "tensor list"
  variables :: "variable list"
  offsets :: "nat list"
  lengths :: "nat list"
  pending :: nat

record Bucket =
  bucket_replicas :: "BucketReplica list"
  variable_indices :: "nat list"
  bucket_pending :: nat
  work :: "nat option"
  future_work :: "nat option"
  expect_sparse_gradient :: bool

datatype collective =
    Allreduce nat "tensor option list"
  | RunHook nat "tensor option list"
  | AllreduceUsedMaps "int list list"

record reducer =
  replicas :: "variable list list"
  expect_sparse_gradients :: "bool list list"
  expect_autograd_hooks :: bool
  require_finalize :: bool
  next_bucket :: nat
  has_marked_unused_parameters :: bool
  find_unused_parameters :: bool
  local_used_maps_reduced :: bool
  has_rebuilt_bucket :: bool
  bucket_bytes_cap :: nat
  comm_hook :: "unit option"
  buckets :: "Bucket list"
  variable_locators :: "VariableLocator list"
  unused_parameters :: "VariableIndex list"
  func :: "(nat \<times> VariableIndex) list"
  local_used_maps :: "int list list"
  local_used_maps_dev :: "int list list"
  local_used_work :: "nat option"
  rebuilt_params :: "variable list"
  rebuilt_param_indices :: "int list"
  grads :: "nat \<Rightarrow> tensor option"
  memory :: memory
  next_storage :: nat
  world_size :: nat
  collectives :: "collective list"
  queued_finalize :: nat

text \<open>
  A reducer function either returns the new state or throws; the state in which it
  throws is kept with the error, since a C++ exception leaves the members as they were
  when it was raised.
\<close>

type_synonym outcome = "(error \<times> reducer) + reducer"

text \<open>The loop over a list with a body that may throw in a state.\<close>

fun for_each_do :: "'i list \<Rightarrow> ('i \<Rightarrow> 's \<Rightarrow> (error \<times> 's) + 's) \<Rightarrow> 's \<Rightarrow> (error \<times> 's) + 's" where
  "for_each_do [] body s = Inr s"
| "for_each_do (i # rest) body s =
     (case body i s of Inl e \<Rightarrow> Inl e | Inr s' \<Rightarrow> for_each_do rest body s')"

subsection \<open>Locating a variable\<close>

text \<open>
  The three unchecked lookups with which \<^verbatim>\<open>mark_variable_ready\<close>,
  \<^verbatim>\<open>mark_variable_ready_dense\<close> and \<^verbatim>\<open>mark_variable_ready_sparse\<close> begin:
  \<^verbatim>\<open>variable_locators_[variable_index]\<close>, \<^verbatim>\<open>buckets_[bucket_index.bucket_index]\<close> and
  \<^verbatim>\<open>bucket.replicas[replica_index]\<close>.
\<close>

definition locate :: "VariableIndex \<Rightarrow> reducer \<Rightarrow> (VariableLocator \<times> Bucket \<times> BucketReplica) option" where
  "locate index s =
     (if variable_index index < length (variable_locators s) then
        let locator = variable_locators s ! variable_index index in
        if bucket_index locator < length (buckets s) then
          let bucket = buckets s ! bucket_index locator in
          if replica_index index < length (bucket_replicas bucket)
          then Some (locator, bucket, bucket_replicas bucket ! replica_index index)
          else None
        else None
      else None)"

text \<open>The pre-decrement of a \<^verbatim>\<open>size_t\<close> counter wraps at zero.\<close>

definition size_t_dec :: "nat \<Rightarrow> nat" where
  "size_t_dec n = (if n = 0 then 2 ^ 64 - 1 else n - 1)"

definition update_replica :: "nat \<Rightarrow> nat \<Rightarrow> (BucketReplica \<Rightarrow> BucketReplica) \<Rightarrow> reducer \<Rightarrow> reducer" where
  "update_replica b r f s =
     s\<lparr>buckets := (buckets s)
         [b := (buckets s ! b)\<lparr>bucket_replicas :=
                  (bucket_replicas (buckets s ! b))[r := f (bucket_replicas (buckets s ! b) ! r)]\<rparr>]\<rparr>"

definition update_bucket :: "nat \<Rightarrow> (Bucket \<Rightarrow> Bucket) \<Rightarrow> reducer \<Rightarrow> reducer" where
  "update_bucket b f s = s\<lparr>buckets := (buckets s)[b := f (buckets s ! b)]\<rparr>"

subsection \<open>Marking variables and buckets ready\<close>

text \<open>
  \<^verbatim>\<open>Reducer::mark_variable_ready_dense\<close>.  The stride warning changes no state.  The
  scalar handed to \<^verbatim>\<open>mul_out\<close> is \<^verbatim>\<open>double(1.) / process_group_->getSize()\<close>, a quotient of
  two doubles.
\<close>

definition mark_variable_ready_dense :: "arithmetic \<Rightarrow> VariableIndex \<Rightarrow> reducer \<Rightarrow> outcome" where
  "mark_variable_ready_dense ar index s =
     (case locate index s of
        None \<Rightarrow> Inl (UndefinedBehaviour, s)
      | Some (locator, bucket, replica) \<Rightarrow>
          let i = intra_bucket_index locator in
          if \<not> (i < length (variables replica) \<and> i < length (offsets replica) \<and>
                 i < length (lengths replica) \<and> i < length (bucket_views replica))
          then Inl (UndefinedBehaviour, s)
          else
            let variable = variables replica ! i;
                bucket_view = bucket_views replica ! i
            in
              case grads s (grad_slot variable) of
                Some grad \<Rightarrow>
                  if \<not> is_alias_of grad bucket_view then
                    if \<not> type_equal grad bucket_view then Inl (GradTypeMismatch, s)
                    else if \<not> device grad = device bucket_view then Inl (AssertGradDevice, s)
                    else if \<not> numel grad = numel bucket_view then Inl (AssertGradNumel, s)
                    else
                      let mem = (if comm_hook s = None
                                 then mul_out ar bucket_view grad
                                        (fdiv ar kDouble 1 (real (world_size s))) (memory s)
                                 else copy_tensor bucket_view grad (memory s))
                      in Inr (s\<lparr>memory := mem,
                                grads := (grads s)(grad_slot variable \<mapsto> bucket_view)\<rparr>)
                  else if comm_hook s = None
                  then Inr (s\<lparr>memory := div_tensor ar bucket_view (real (world_size s)) (memory s)\<rparr>)
                  else Inr s
              | None \<Rightarrow> Inr (s\<lparr>memory := zero_tensor bucket_view (memory s)\<rparr>))"

text \<open>\<^verbatim>\<open>Reducer::mark_variable_ready_sparse\<close>.\<close>

definition mark_variable_ready_sparse :: "arithmetic \<Rightarrow> VariableIndex \<Rightarrow> reducer \<Rightarrow> outcome" where
  "mark_variable_ready_sparse ar index s =
     (case locate index s of
        None \<Rightarrow> Inl (UndefinedBehaviour, s)
      | Some (locator, bucket, replica) \<Rightarrow>
          let i = intra_bucket_index locator in
          if \<not> i < length (variables replica) then Inl (UndefinedBehaviour, s)
          else
            let variable = variables replica ! i in
              case grads s (grad_slot variable) of
                None \<Rightarrow> Inl (SparseGradUndefined, s)
              | Some grad \<Rightarrow>
                  if \<not> layout grad = kSparse then Inl (SparseGradNotSparse, s)
                  else
                    let s1 = update_replica (bucket_index locator)
                               (replica_index index) (\<lambda>r. r\<lparr>contents := Some grad\<rparr>) s
                    in if comm_hook s = None
                       then Inr (s1\<lparr>memory := div_tensor ar grad (real (world_size s)) (memory s)\<rparr>)
                       else Inr s1)"

text \<open>
  \<^verbatim>\<open>Reducer::mark_bucket_ready\<close>: the assertion, the early return, and the loop that
  launches every bucket from \<^verbatim>\<open>next_bucket_\<close> on whose pending count is zero.  Each launch
  is recorded with the index of its bucket and the contents of its replicas.
\<close>

definition launch_bucket :: "reducer \<Rightarrow> reducer" where
  "launch_bucket s =
     (let bucket = buckets s ! next_bucket s;
          tensors = map contents (bucket_replicas bucket);
          handle = length (collectives s)
      in if comm_hook s = None
         then (update_bucket (next_bucket s) (\<lambda>b. b\<lparr>work := Some handle\<rparr>) s)
                \<lparr>collectives := collectives s @ [Allreduce (next_bucket s) tensors],
                 next_bucket := next_bucket s + 1\<rparr>
         else (update_bucket (next_bucket s) (\<lambda>b. b\<lparr>future_work := Some handle\<rparr>) s)
                \<lparr>collectives := collectives s @ [RunHook (next_bucket s) tensors],
                 next_bucket := next_bucket s + 1\<rparr>)"

lemma launch_bucket_measure:
  "next_bucket s < length (buckets s) \<Longrightarrow>
   length (buckets (launch_bucket s)) - next_bucket (launch_bucket s)
     < length (buckets s) - next_bucket s"
  by (auto simp: launch_bucket_def update_bucket_def Let_def)

function launch_ready_buckets :: "reducer \<Rightarrow> reducer" where
  "launch_ready_buckets s =
     (if next_bucket s < length (buckets s) \<and> bucket_pending (buckets s ! next_bucket s) = 0
      then launch_ready_buckets (launch_bucket s)
      else s)"
  by pat_completeness auto
termination
  by (relation "measure (\<lambda>s. length (buckets s) - next_bucket s)")
     (auto simp: launch_bucket_measure)

declare launch_ready_buckets.simps [simp del]

definition mark_bucket_ready :: "nat \<Rightarrow> reducer \<Rightarrow> outcome" where
  "mark_bucket_ready b s =
     (if \<not> b \<ge> next_bucket s then Inl (AssertBucketBeforeNext, s)
      else if b > next_bucket s then Inr s
      else Inr (launch_ready_buckets s))"

text \<open>
  The end of \<^verbatim>\<open>mark_variable_ready\<close>: once every bucket has been launched, the usage maps
  are copied to their device copies and all-reduced (when unused parameters are looked
  for), and the \<^verbatim>\<open>finalize_backward\<close> callback is queued.  The copy
  \<^verbatim>\<open>local_used_maps_dev_[i].copy_(local_used_maps_[i])\<close> indexes the device maps unchecked.
\<close>

definition queue_finalize :: "reducer \<Rightarrow> outcome" where
  "queue_finalize s =
     (if next_bucket s = length (buckets s) then
        if find_unused_parameters s then
          if \<not> length (local_used_maps s) \<le> length (local_used_maps_dev s)
          then Inl (UndefinedBehaviour, s)
          else
            let dev = local_used_maps s @ drop (length (local_used_maps s)) (local_used_maps_dev s)
            in Inr (s\<lparr>local_used_maps_dev := dev,
                      local_used_work := Some (length (collectives s)),
                      collectives := collectives s @ [AllreduceUsedMaps dev],
                      queued_finalize := queued_finalize s + 1\<rparr>)
        else Inr (s\<lparr>queued_finalize := queued_finalize s + 1\<rparr>)
      else Inr s)"

text \<open>
  \<^verbatim>\<open>Reducer::mark_variable_ready\<close>.  With \<^verbatim>\<open>replica.pending == 0\<close> the first
  \<^verbatim>\<open>TORCH_CHECK\<close> fails when \<^verbatim>\<open>has_marked_unused_parameters_\<close> is false and the second
  one fails when it is true.
\<close>

definition mark_variable_ready :: "arithmetic \<Rightarrow> VariableIndex \<Rightarrow> reducer \<Rightarrow> outcome" where
  "mark_variable_ready ar index s =
     (if \<not> replica_index index < length (replicas s) then Inl (OutOfRangeReplicaIndex, s)
      else if \<not> variable_index index < length (variable_locators s)
      then Inl (OutOfRangeVariableIndex, s)
      else
        let s1 = s\<lparr>require_finalize := True\<rparr> in
        case locate index s1 of
          None \<Rightarrow> Inl (UndefinedBehaviour, s1)
        | Some (locator, bucket, replica) \<Rightarrow>
            if pending replica = 0 \<and> \<not> has_marked_unused_parameters s1
            then Inl (MarkedReadyTwiceUnusedHint, s1)
            else if pending replica = 0 \<and> \<not> \<not> has_marked_unused_parameters s1
            then Inl (MarkedReadyTwice, s1)
            else
              case (if expect_sparse_gradient bucket
                    then mark_variable_ready_sparse ar index s1
                    else mark_variable_ready_dense ar index s1) of
                Inl e \<Rightarrow> Inl e
              | Inr s2 \<Rightarrow>
                  let b = bucket_index locator;
                      r = replica_index index;
                      s3 = update_replica b r (\<lambda>rep. rep\<lparr>pending := size_t_dec (pending rep)\<rparr>) s2
                  in
                    case (if pending (bucket_replicas (buckets s3 ! b) ! r) = 0 then
                            let s4 = update_bucket b
                                       (\<lambda>bk. bk\<lparr>bucket_pending := size_t_dec (bucket_pending bk)\<rparr>) s3
                            in if bucket_pending (buckets s4 ! b) = 0
                               then mark_bucket_ready b s4
                               else Inr s4
                          else Inr s3) of
                      Inl e \<Rightarrow> Inl e
                    | Inr s5 \<Rightarrow> queue_finalize s5)"

text \<open>
  \<^verbatim>\<open>Reducer::autograd_hook\<close>.  The usage maps are a vector of tensors: the vector is
  indexed unchecked, the tensor with a range check.
\<close>

definition autograd_hook :: "arithmetic \<Rightarrow> VariableIndex \<Rightarrow> reducer \<Rightarrow> outcome" where
  "autograd_hook ar index s =
     (if find_unused_parameters s \<and>
         \<not> (replica_index index < length (local_used_maps s) \<and>
            variable_index index < length (local_used_maps s ! replica_index index))
      then Inl (if replica_index index < length (local_used_maps s)
                then TensorIndexOutOfRange else UndefinedBehaviour, s)
      else
        let s1 = (if find_unused_parameters s
                  then s\<lparr>local_used_maps := (local_used_maps s)
                           [replica_index index :=
                              (local_used_maps s ! replica_index index)
                                [variable_index index := 1]]\<rparr>
                  else s)
        in
          if \<not> expect_autograd_hooks s1 then Inr s1
          else if \<not> has_rebuilt_bucket s1 \<and> \<not> find_unused_parameters s1 \<and>
                  replica_index index = 0 \<and>
                  \<not> (replica_index index < length (replicas s1) \<and>
                     variable_index index < length (replicas s1 ! replica_index index))
          then Inl (UndefinedBehaviour, s1)
          else
            let s2 = (if \<not> has_rebuilt_bucket s1 \<and> \<not> find_unused_parameters s1 \<and>
                         replica_index index = 0
                      then s1\<lparr>rebuilt_params := rebuilt_params s1 @
                                  [replicas s1 ! replica_index index ! variable_index index],
                               rebuilt_param_indices := rebuilt_param_indices s1 @
                                  [int (variable_index index)]\<rparr>
                      else s1)
            in
              if \<not> has_marked_unused_parameters s2 \<and> find_unused_parameters s2 then
                case for_each_do (unused_parameters s2) (mark_variable_ready ar)
                       (s2\<lparr>has_marked_unused_parameters := True\<rparr>) of
                  Inl e \<Rightarrow> Inl e
                | Inr s3 \<Rightarrow> mark_variable_ready ar index s3
              else mark_variable_ready ar index s2)"

subsection \<open>Building the buckets\<close>

text \<open>
  \<^verbatim>\<open>Reducer::initialize_bucket_views\<close>.  The view of a variable is
  \<^verbatim>\<open>contents.as_strided(v.sizes(), v.strides(), offset)\<close> when the variable is non-overlapping
  and dense, and \<^verbatim>\<open>contents.narrow(0, offset, length).view(v.sizes())\<close> otherwise; both
  share the storage of \<^verbatim>\<open>contents\<close>, which is \<open>flat\<close> below.  The range checks of \<^verbatim>\<open>narrow\<close>, \<^verbatim>\<open>view\<close> and
  \<^verbatim>\<open>as_strided\<close> are not modelled as failures.  This function copies a gradient without
  a check of its own, and the library refuses to copy between tensors with different
  numbers of elements (\<open>TensorShapeMismatch\<close>).
\<close>

definition narrow0 :: "tensor \<Rightarrow> nat \<Rightarrow> nat \<Rightarrow> tensor" where
  "narrow0 t start len =
     t\<lparr>storage_offset := storage_offset t + start * (case strides t of [] \<Rightarrow> 0 | st # _ \<Rightarrow> st),
       sizes := [len]\<rparr>"

definition view_as :: "tensor \<Rightarrow> nat list \<Rightarrow> tensor" where
  "view_as t new_sizes = t\<lparr>sizes := new_sizes, strides := contiguous_strides new_sizes\<rparr>"

definition initialize_bucket_view ::
  "tensor \<Rightarrow> bool \<Rightarrow> nat \<Rightarrow> BucketReplica \<times> reducer \<Rightarrow>
   (error \<times> BucketReplica \<times> reducer) + BucketReplica \<times> reducer" where
  "initialize_bucket_view flat copy_to_bucket_view i rs =
     (case rs of (replica, s) \<Rightarrow>
        if \<not> (i < length (offsets replica) \<and> i < length (lengths replica))
        then Inl (UndefinedBehaviour, rs)
        else
          let v = variables replica ! i;
              start = offsets replica ! i;
              len = lengths replica ! i;
              bucket_view =
                (if non_overlapping_and_dense (param v)
                 then as_strided flat (sizes (param v)) (strides (param v)) start
                 else view_as (narrow0 flat start len) (sizes (param v)));
              replica' = replica\<lparr>bucket_views := bucket_views replica @ [bucket_view]\<rparr>
          in
            case grads s (grad_slot v) of
              None \<Rightarrow> Inr (replica', s)
            | Some grad \<Rightarrow>
                if \<not> is_alias_of grad bucket_view then
                  case (if \<not> copy_to_bucket_view then Inr (memory s)
                        else if numel bucket_view = numel grad
                        then Inr (copy_tensor bucket_view grad (memory s))
                        else Inl TensorShapeMismatch) of
                    Inl e \<Rightarrow> Inl (e, replica', s)
                  | Inr mem \<Rightarrow>
                      Inr (replica', s\<lparr>memory := mem,
                                       grads := (grads s)(grad_slot v \<mapsto> bucket_view)\<rparr>)
                else Inr (replica', s))"

definition initialize_bucket_views ::
  "BucketReplica \<Rightarrow> tensor \<Rightarrow> bool \<Rightarrow> reducer \<Rightarrow> (error \<times> reducer) + BucketReplica \<times> reducer" where
  "initialize_bucket_views replica flat copy_to_bucket_view s =
     (case for_each_do [0..<length (variables replica)]
             (initialize_bucket_view flat copy_to_bucket_view) (replica, s) of
        Inl (e, replica', s') \<Rightarrow> Inl (e, s')
      | Inr rs \<Rightarrow> Inr rs)"

text \<open>
  \<^verbatim>\<open>Reducer::initialize_buckets\<close>.  \<open>uninitialized\<close> is the value of the two
  \<^verbatim>\<open>pending\<close> counters of a freshly declared \<^verbatim>\<open>Bucket\<close> and \<^verbatim>\<open>BucketReplica\<close>, which the
  source does not set here.  The accumulation of one dense replica walks the indices of
  the bucket with the tensor options seen so far and the running offset.
\<close>

record replica_builder =
  built :: BucketReplica
  options_device :: "device option"
  options_dtype :: "scalar_type option"
  running_offset :: nat

definition fresh_replica :: "nat \<Rightarrow> BucketReplica" where
  "fresh_replica uninitialized =
     \<lparr>contents = None, bucket_views = [], variables = [], offsets = [], lengths = [],
      pending = uninitialized\<rparr>"

definition add_dense_variable ::
  "variable list \<Rightarrow> nat \<Rightarrow> replica_builder \<Rightarrow> error + replica_builder" where
  "add_dense_variable replica_variables var_index b =
     (if \<not> var_index < length replica_variables then Inl OutOfRangeVariableSpecified
      else
        let variable = replica_variables ! var_index in
        if options_device b \<noteq> None \<and> options_device b \<noteq> Some (device (param variable))
        then Inl BucketDeviceMismatch
        else if options_dtype b \<noteq> None \<and> options_dtype b \<noteq> Some (dtype (param variable))
        then Inl BucketDtypeMismatch
        else
          let len = numel (param variable) in
          Inr (b\<lparr>built := (built b)\<lparr>variables := variables (built b) @ [variable],
                                     offsets := offsets (built b) @ [running_offset b],
                                     lengths := lengths (built b) @ [len]\<rparr>,
                 options_device := Some (device (param variable)),
                 options_dtype := Some (dtype (param variable)),
                 running_offset := running_offset b + len\<rparr>))"

definition initialize_replica ::
  "nat \<Rightarrow> bool \<Rightarrow> nat list \<Rightarrow> nat \<Rightarrow> reducer \<Rightarrow> (error \<times> reducer) + BucketReplica \<times> reducer" where
  "initialize_replica uninitialized sparse indices rep_index s =
     (if sparse then
        (case indices of
           [] \<Rightarrow> Inl (UndefinedBehaviour, s)
         | var_index # _ \<Rightarrow>
             if \<not> var_index < length (replicas s ! rep_index)
             then Inl (UndefinedBehaviour, s)
             else Inr ((fresh_replica uninitialized)
                         \<lparr>variables := [replicas s ! rep_index ! var_index]\<rparr>, s))
      else
        case for_each indices (add_dense_variable (replicas s ! rep_index))
               \<lparr>built = fresh_replica uninitialized, options_device = None,
                options_dtype = None, running_offset = 0\<rparr> of
          Inl e \<Rightarrow> Inl (e, s)
        | Inr b \<Rightarrow>
            let flat = empty_tensor (next_storage s) (running_offset b)
                             (case options_dtype b of None \<Rightarrow> kFloat | Some ty \<Rightarrow> ty)
                             (case options_device b of None \<Rightarrow> Device kCPU (- 1) | Some d \<Rightarrow> d);
                replica = (built b)\<lparr>contents := Some flat\<rparr>
            in initialize_bucket_views replica flat True
                 (s\<lparr>next_storage := next_storage s + 1\<rparr>))"

definition initialize_replicas ::
  "nat \<Rightarrow> bool \<Rightarrow> nat list \<Rightarrow> nat \<Rightarrow> BucketReplica list \<times> reducer \<Rightarrow>
   (error \<times> BucketReplica list \<times> reducer) + BucketReplica list \<times> reducer" where
  "initialize_replicas uninitialized sparse indices rep_index rs =
     (case rs of (finished, s) \<Rightarrow>
        case initialize_replica uninitialized sparse indices rep_index s of
          Inl (e, s') \<Rightarrow> Inl (e, finished, s')
        | Inr (replica, s') \<Rightarrow> Inr (finished @ [replica], s'))"

definition set_locator :: "nat \<Rightarrow> nat \<times> nat \<Rightarrow> reducer \<Rightarrow> (error \<times> reducer) + reducer" where
  "set_locator b iv s =
     (case iv of (intra, var_index) \<Rightarrow>
        if \<not> var_index < length (variable_locators s)
        then Inl (OutOfRangeVariableSpecified, s)
        else Inr (s\<lparr>variable_locators := (variable_locators s)
                      [var_index := \<lparr>bucket_index = b, intra_bucket_index = intra\<rparr>]\<rparr>))"

fun check_no_sparse :: "bool list \<Rightarrow> nat list \<Rightarrow> error option" where
  "check_no_sparse flags [] = None"
| "check_no_sparse flags (var_index # rest) =
     (if \<not> var_index < length flags then Some UndefinedBehaviour
      else if flags ! var_index then Some SparseInMultiVariableBucket
      else check_no_sparse flags rest)"

definition sparse_expectation :: "nat list \<Rightarrow> reducer \<Rightarrow> error + bool" where
  "sparse_expectation indices s =
     (if expect_sparse_gradients s = [] then Inl UndefinedBehaviour
      else
        case indices of
          [var_index] \<Rightarrow>
            if var_index < length (expect_sparse_gradients s ! 0)
            then Inr (expect_sparse_gradients s ! 0 ! var_index)
            else Inl UndefinedBehaviour
        | _ \<Rightarrow>
            (case check_no_sparse (expect_sparse_gradients s ! 0) indices of
               Some e \<Rightarrow> Inl e
             | None \<Rightarrow> Inr False))"

definition initialize_bucket :: "nat \<Rightarrow> nat \<times> nat list \<Rightarrow> reducer \<Rightarrow> (error \<times> reducer) + reducer" where
  "initialize_bucket uninitialized bi s =
     (case bi of (b, indices) \<Rightarrow>
        if \<not> length indices > 0 then Inl (EmptyBucketSpecified, s)
        else
          case sparse_expectation indices s of
            Inl e \<Rightarrow> Inl (e, s)
          | Inr sparse \<Rightarrow>
              case for_each_do [0..<length (replicas s)]
                     (initialize_replicas uninitialized sparse indices) ([], s) of
                Inl (e, finished, s1) \<Rightarrow> Inl (e, s1)
              | Inr (bucket_reps, s1) \<Rightarrow>
                  case for_each_do (zip [0..<length indices] indices) (set_locator b) s1 of
                    Inl e \<Rightarrow> Inl e
                  | Inr s2 \<Rightarrow>
                      Inr (s2\<lparr>buckets := buckets s2 @
                                [\<lparr>bucket_replicas = bucket_reps, variable_indices = indices,
                                  bucket_pending = uninitialized, work = None,
                                  future_work = None, expect_sparse_gradient = sparse\<rparr>]\<rparr>))"

definition initialize_buckets :: "nat \<Rightarrow> nat list list \<Rightarrow> reducer \<Rightarrow> (error \<times> reducer) + reducer" where
  "initialize_buckets uninitialized bucket_indices s =
     (if \<not> \<not> expect_autograd_hooks s then Inl (InitializeDuringAutograd, s)
      else if replicas s = [] then Inl (UndefinedBehaviour, s\<lparr>buckets := [], variable_locators := []\<rparr>)
      else
        for_each_do (zip [0..<length bucket_indices] bucket_indices)
          (initialize_bucket uninitialized)
          (s\<lparr>buckets := [],
             variable_locators :=
               replicate (length (replicas s ! 0)) \<lparr>bucket_index = 0, intra_bucket_index = 0\<rparr>\<rparr>))"

text \<open>
  The offsets that the running offset produces for given lengths, the structural part of
  the state that building a replica leaves alone, and what a finished replica looks
  like.
\<close>

definition prefix_sums :: "nat list \<Rightarrow> nat list" where
  "prefix_sums ls = map (\<lambda>i. sum_list (take i ls)) [0..<length ls]"

definition same_structure :: "reducer \<Rightarrow> reducer \<Rightarrow> bool" where
  "same_structure s s' =
     (replicas s' = replicas s \<and> expect_sparse_gradients s' = expect_sparse_gradients s \<and>
      buckets s' = buckets s \<and> variable_locators s' = variable_locators s)"

definition replica_ok :: "bool \<Rightarrow> nat \<Rightarrow> BucketReplica \<Rightarrow> bool" where
  "replica_ok sparse n replica =
     (length (variables replica) = n \<and>
      (if sparse then bucket_views replica = []
       else (\<exists>flat. contents replica = Some flat \<and>
               sum_list (lengths replica) = numel flat \<and>
               offsets replica = prefix_sums (lengths replica) \<and>
               length (lengths replica) = n \<and>
               length (bucket_views replica) = n \<and>
               (\<forall>v\<in>set (bucket_views replica). storage v = storage flat))))"

text \<open>The invariants of the loops of \<^verbatim>\<open>initialize_buckets\<close>.\<close>

definition views_added :: "tensor \<Rightarrow> BucketReplica \<times> reducer \<Rightarrow> nat list \<Rightarrow> BucketReplica \<times> reducer \<Rightarrow> bool" where
  "views_added flat start zs rs =
     (\<exists>vs. fst rs = (fst start)\<lparr>bucket_views := bucket_views (fst start) @ vs\<rparr> \<and>
           length vs = length zs \<and> (\<forall>v\<in>set vs. storage v = storage flat) \<and>
           same_structure (snd start) (snd rs))"

definition builder_ok :: "nat \<Rightarrow> nat list \<Rightarrow> replica_builder \<Rightarrow> bool" where
  "builder_ok u zs b =
     (length (variables (built b)) = length zs \<and>
      length (lengths (built b)) = length zs \<and>
      offsets (built b) = prefix_sums (lengths (built b)) \<and>
      running_offset b = sum_list (lengths (built b)) \<and>
      contents (built b) = None \<and> bucket_views (built b) = [])"

definition bucket_ok :: "nat \<Rightarrow> Bucket \<Rightarrow> bool" where
  "bucket_ok R bucket =
     (variable_indices bucket \<noteq> [] \<and> length (bucket_replicas bucket) = R \<and>
      (\<forall>replica\<in>set (bucket_replicas bucket).
          replica_ok (expect_sparse_gradient bucket) (length (variable_indices bucket)) replica))"

definition replicas_built ::
  "bool \<Rightarrow> nat \<Rightarrow> reducer \<Rightarrow> nat list \<Rightarrow> BucketReplica list \<times> reducer \<Rightarrow> bool" where
  "replicas_built sparse n s zs rs =
     (length (fst rs) = length zs \<and> (\<forall>replica\<in>set (fst rs). replica_ok sparse n replica) \<and>
      same_structure s (snd rs))"

definition locators_set :: "nat \<Rightarrow> reducer \<Rightarrow> (nat \<times> nat) list \<Rightarrow> reducer \<Rightarrow> bool" where
  "locators_set b s zs t =
     (replicas t = replicas s \<and> expect_sparse_gradients t = expect_sparse_gradients s \<and>
      buckets t = buckets s \<and>
      length (variable_locators t) = length (variable_locators s) \<and>
      (\<forall>x. x \<notin> snd ` set zs \<longrightarrow> variable_locators t ! x = variable_locators s ! x) \<and>
      (\<forall>x\<in>snd ` set zs. x < length (variable_locators s)) \<and>
      (distinct (map snd zs) \<longrightarrow>
         (\<forall>p\<in>set zs. variable_locators t ! snd p
                          = \<lparr>bucket_index = b, intra_bucket_index = fst p\<rparr>)))"

definition buckets_built :: "nat \<Rightarrow> nat \<Rightarrow> (nat \<times> nat list) list \<Rightarrow> reducer \<Rightarrow> bool" where
  "buckets_built N R zs t =
     (length (replicas t) = R \<and> length (variable_locators t) = N \<and>
      map variable_indices (buckets t) = map snd zs \<and>
      (\<forall>B\<in>set (buckets t). bucket_ok R B) \<and>
      (distinct (concat (map snd zs)) \<and> map fst zs = [0..<length zs] \<longrightarrow>
         (\<forall>j<length zs. \<forall>i<length (snd (zs ! j)).
            snd (zs ! j) ! i < N \<and>
            variable_locators t ! (snd (zs ! j) ! i)
              = \<lparr>bucket_index = j, intra_bucket_index = i\<rparr>)))"

subsection \<open>Preparing a backward pass\<close>

text \<open>
  The autograd graph that \<^verbatim>\<open>prepare_for_backward\<close> walks is an input: \<open>graph\<close> lists,
  for each node, the functions of its outgoing edges (\<open>None\<close> for an edge without a
  function), and \<open>outputs\<close> holds the \<^verbatim>\<open>grad_fn\<close> of every output (\<open>None\<close> when it has
  none).  Nodes are named by numbers, as are the gradient accumulators that are the keys
  of \<^verbatim>\<open>func_\<close>; \<open>func\<close> lists the entries of that hash table in its iteration order.
\<close>

type_synonym autograd_graph = "(nat \<times> nat option list) list"

definition next_edges :: "autograd_graph \<Rightarrow> nat \<Rightarrow> nat option list" where
  "next_edges graph fn = (case map_of graph fn of None \<Rightarrow> [] | Some edges \<Rightarrow> edges)"

fun visit_edges :: "nat option list \<Rightarrow> nat set \<times> nat list \<Rightarrow> nat set \<times> nat list" where
  "visit_edges [] (seen, queue) = (seen, queue)"
| "visit_edges (None # edges) (seen, queue) = visit_edges edges (seen, queue)"
| "visit_edges (Some next_ptr # edges) (seen, queue) =
     (if next_ptr \<in> seen then visit_edges edges (seen, queue)
      else visit_edges edges (insert next_ptr seen, queue @ [next_ptr]))"

definition graph_targets :: "autograd_graph \<Rightarrow> nat set" where
  "graph_targets graph = (\<Union>edges\<in>snd ` set graph. {n. Some n \<in> set edges})"

lemma finite_graph_targets: "finite (graph_targets graph)"
proof -
  have "finite {n. Some n \<in> set edges}" for edges :: "nat option list"
  proof -
    have "{n. Some n \<in> set edges} \<subseteq> the ` set edges" by force
    then show ?thesis by (rule finite_subset) simp
  qed
  then show ?thesis by (simp add: graph_targets_def)
qed

lemma next_edges_targets: "Some n \<in> set (next_edges graph fn) \<Longrightarrow> n \<in> graph_targets graph"
proof -
  assume a: "Some n \<in> set (next_edges graph fn)"
  then obtain edges where "map_of graph fn = Some edges" "Some n \<in> set edges"
    by (cases "map_of graph fn") (auto simp: next_edges_def)
  then have "(fn, edges) \<in> set graph" by (auto dest: map_of_SomeD)
  then have "edges \<in> snd ` set graph" by force
  with \<open>Some n \<in> set edges\<close> show ?thesis by (auto simp: graph_targets_def)
qed

lemma visit_edges_progress:
  assumes "finite T"
  shows "\<forall>n. Some n \<in> set edges \<longrightarrow> n \<in> T \<Longrightarrow> visit_edges edges (seen, queue) = (seen', queue') \<Longrightarrow>
    seen \<subseteq> seen' \<and> ((seen' = seen \<and> queue' = queue) \<or> card (T - seen') < card (T - seen))"
proof (induction edges arbitrary: seen queue)
  case Nil
  then show ?case by simp
next
  case (Cons e edges)
  show ?case
  proof (cases e)
    case None
    with Cons show ?thesis by simp
  next
    case (Some n)
    show ?thesis
    proof (cases "n \<in> seen")
      case True
      with Cons Some show ?thesis by simp
    next
      case False
      from Cons.prems Some have nT: "n \<in> T" by simp
      from Cons.prems Some False have
        run: "visit_edges edges (insert n seen, queue @ [n]) = (seen', queue')" by simp
      from Cons.prems have "\<forall>n. Some n \<in> set edges \<longrightarrow> n \<in> T" by simp
      from Cons.IH [OF this run] have sub: "insert n seen \<subseteq> seen'" by simp
      then have "T - seen' \<subseteq> T - insert n seen" by blast
      with assms have "card (T - seen') \<le> card (T - insert n seen)"
        by (simp add: card_mono)
      moreover from assms nT False have "card (T - insert n seen) < card (T - seen)"
        by (intro psubset_card_mono) auto
      ultimately show ?thesis using sub by auto
    qed
  qed
qed

function traverse :: "autograd_graph \<Rightarrow> nat list \<Rightarrow> nat set \<Rightarrow> nat set" where
  "traverse graph queue seen =
     (if queue = [] then seen
      else
        case visit_edges (next_edges graph (last queue)) (seen, butlast queue) of
          (seen', queue') \<Rightarrow> traverse graph queue' seen')"
  by pat_completeness auto
termination
proof (relation "measures [\<lambda>(graph, queue, seen). card (graph_targets graph - seen),
                           \<lambda>(graph, queue, seen). length queue]", goal_cases)
  case 1
  then show ?case by simp
next
  case (2 graph queue seen seen' queue')
  then have run: "visit_edges (next_edges graph (last queue)) (seen, butlast queue) = (seen', queue')"
    by simp
  have tg: "\<forall>n. Some n \<in> set (next_edges graph (last queue)) \<longrightarrow> n \<in> graph_targets graph"
    using next_edges_targets by blast
  from visit_edges_progress [OF finite_graph_targets tg run]
  have "(seen' = seen \<and> queue' = butlast queue) \<or>
        card (graph_targets graph - seen') < card (graph_targets graph - seen)"
    by simp
  with 2 show ?case by auto
qed

declare traverse.simps [simp del]

definition reset_pending :: "Bucket \<Rightarrow> Bucket" where
  "reset_pending bucket =
     bucket\<lparr>bucket_replicas :=
              map (\<lambda>replica. replica\<lparr>pending := length (variables replica)\<rparr>)
                  (bucket_replicas bucket),
            bucket_pending := length (bucket_replicas bucket)\<rparr>"

text \<open>
  \<^verbatim>\<open>Reducer::prepare_for_backward\<close>: the check of the previous iteration, the reset of the
  accounting (\<open>reset_accounting\<close>, up to \<^verbatim>\<open>unused_parameters_.clear()\<close>) and, when unused
  parameters are looked for, the walk over the graph that refills
  \<^verbatim>\<open>unused_parameters_\<close> (\<open>discover_unused\<close>).  The walk starts from the \<^verbatim>\<open>grad_fn\<close>s of the
  outputs; only the functions reached over an edge are inserted into \<^verbatim>\<open>seen\<close>.
\<close>

definition reset_accounting :: "reducer \<Rightarrow> reducer" where
  "reset_accounting s =
     s\<lparr>expect_autograd_hooks := True,
       next_bucket := 0,
       buckets := map reset_pending (buckets s),
       has_marked_unused_parameters := False,
       unused_parameters := []\<rparr>"

definition unseen_accumulators ::
  "autograd_graph \<Rightarrow> nat option list \<Rightarrow> (nat \<times> VariableIndex) list \<Rightarrow> VariableIndex list" where
  "unseen_accumulators graph outputs table =
     (let queue = concat (map (\<lambda>grad_fn. case grad_fn of None \<Rightarrow> [] | Some fn \<Rightarrow> [fn]) outputs);
          seen = traverse graph queue {}
      in map snd (filter (\<lambda>it. fst it \<notin> seen) table))"

definition discover_unused :: "autograd_graph \<Rightarrow> nat option list \<Rightarrow> reducer \<Rightarrow> reducer" where
  "discover_unused graph outputs s =
     (if \<not> find_unused_parameters s then s
      else s\<lparr>unused_parameters :=
               unused_parameters s @ unseen_accumulators graph outputs (func s)\<rparr>)"

definition prepare_for_backward :: "autograd_graph \<Rightarrow> nat option list \<Rightarrow> reducer \<Rightarrow> outcome" where
  "prepare_for_backward graph outputs s =
     (if require_finalize s then Inl (PriorReductionUnfinished, s)
      else Inr (discover_unused graph outputs (reset_accounting s)))"

subsection \<open>Synchronising the bucket indices\<close>

text \<open>
  \<^verbatim>\<open>Reducer::sync_bucket_indices\<close>.  The two tensors have element type \<^verbatim>\<open>int\<close> (32 bits):
  storing a \<^verbatim>\<open>size_t\<close> keeps its low 32 bits, read in two's complement, and reading an
  element back into a \<^verbatim>\<open>size_t\<close> extends the sign.  The position in the index tensor is
  an \<^verbatim>\<open>int\<close> too (\<^verbatim>\<open>auto indices_accessor_Index = 0\<close>), incremented once for every index
  that is written or read: an increment at \<open>2 ^ 31 - 1\<close> overflows, which has no defined
  result, so packing \<open>2 ^ 31\<close> or more indices is \<open>UndefinedBehaviour\<close>, and so is
  unpacking beyond that position or beyond the end of the tensor (the accessor is not
  range-checked).  The process group is not part of the verified files; its two
  broadcasts are the parameters \<open>broadcast_indices\<close> and \<open>broadcast_sizes\<close>, which map the
  data a rank puts into the operation to the data it holds afterwards: the identity on
  rank 0, the data of rank 0 elsewhere.  A broadcast whose result differs in length from
  the local tensor is \<open>CollectiveShapeMismatch\<close>.  A negative trailer makes the
  allocation of the size tensor fail, and a negative bucket size makes
  \<^verbatim>\<open>bucket.reserve\<close> fail.
\<close>

definition int32_of_size_t :: "nat \<Rightarrow> int" where
  "int32_of_size_t n =
     (let m = int n mod 2 ^ 32 in if m < 2 ^ 31 then m else m - 2 ^ 32)"

definition pack_indices :: "nat list list \<Rightarrow> int list" where
  "pack_indices bucket_indices =
     map int32_of_size_t (concat bucket_indices) @ [int32_of_size_t (length bucket_indices)]"

definition pack_bucket_sizes :: "nat \<Rightarrow> nat list \<Rightarrow> error + int list" where
  "pack_bucket_sizes num_buckets bucket_sizes =
     (if 0 < num_buckets \<and> bucket_sizes = [] then Inl StdOutOfRange
      else Inr (map (\<lambda>i. int32_of_size_t (bucket_sizes ! min i (length bucket_sizes - 1)))
                    [0..<num_buckets]))"

fun unpack_buckets :: "int list \<Rightarrow> int list \<Rightarrow> nat \<Rightarrow> error + nat list list" where
  "unpack_buckets [] indices_tensor position = Inr []"
| "unpack_buckets (bucket_size # rest) indices_tensor position =
     (if bucket_size < 0 then Inl StdLengthError
      else if \<not> (position + nat bucket_size \<le> length indices_tensor \<and>
                 int position + bucket_size < 2 ^ 31)
      then Inl UndefinedBehaviour
      else
        case unpack_buckets rest indices_tensor (position + nat bucket_size) of
          Inl e \<Rightarrow> Inl e
        | Inr bs \<Rightarrow>
            Inr (map size_t_of_int64 (take (nat bucket_size) (drop position indices_tensor))
                   # bs))"

definition sync_bucket_indices ::
  "(int list \<Rightarrow> int list) \<Rightarrow> (int list \<Rightarrow> int list) \<Rightarrow> nat list list \<Rightarrow> reducer \<Rightarrow>
   error + nat list list" where
  "sync_bucket_indices broadcast_indices broadcast_sizes bucket_indices s =
     (let bucket_sizes = map length bucket_indices;
          total_size = sum_list bucket_sizes
      in
        if replicas s = [] \<or> replicas s ! 0 = [] then Inl UndefinedBehaviour
        else if \<not> int total_size < 2 ^ 31 then Inl UndefinedBehaviour
        else
          let indices_tensor = pack_indices bucket_indices;
              received = broadcast_indices indices_tensor
          in
            if length received \<noteq> length indices_tensor then Inl CollectiveShapeMismatch
            else if received ! total_size < 0 then Inl NegativeDimension
            else
              case pack_bucket_sizes (nat (received ! total_size)) bucket_sizes of
                Inl e \<Rightarrow> Inl e
              | Inr bucket_sizes_tensor \<Rightarrow>
                  let received_sizes = broadcast_sizes bucket_sizes_tensor in
                  if length received_sizes \<noteq> length bucket_sizes_tensor
                  then Inl CollectiveShapeMismatch
                  else unpack_buckets received_sizes received 0)"

text \<open>
  Every index and the number of buckets are below \<open>2 ^ 31\<close>, and so is the number of all
  indices (hence the size of every bucket).
\<close>

definition fits_int32 :: "nat list list \<Rightarrow> bool" where
  "fits_int32 bucket_indices =
     (int (length bucket_indices) < 2 ^ 31 \<and>
      int (sum_list (map length bucket_indices)) < 2 ^ 31 \<and>
      (\<forall>b\<in>set bucket_indices. \<forall>x\<in>set b. int x < 2 ^ 31))"

text \<open>
  \<^verbatim>\<open>Reducer::rebuild_buckets\<close>.  \<open>first_bucket_bytes\<close> is the constant
  \<^verbatim>\<open>kDefaultFirstBucketBytes\<close> of the header.
\<close>

definition rebuild_buckets ::
  "nat \<Rightarrow> bucket_key list \<Rightarrow> (int list \<Rightarrow> int list) \<Rightarrow> (int list \<Rightarrow> int list) \<Rightarrow> nat \<Rightarrow>
   reducer \<Rightarrow> outcome" where
  "rebuild_buckets first_bucket_bytes visit broadcast_indices broadcast_sizes uninitialized s =
     (if rebuilt_params s = [] then Inr s
      else if \<not> length (rebuilt_params s) = length (rebuilt_param_indices s)
      then Inl (AssertRebuiltSizes, s)
      else if replicas s = [] then Inl (UndefinedBehaviour, s)
      else if \<not> length (replicas s ! 0) = length (rebuilt_param_indices s)
      then Inl (AssertRebuiltParameterCount, s)
      else if expect_sparse_gradients s = [] then Inl (UndefinedBehaviour, s)
      else
        case compute_bucket_assignment_by_size visit (map param (rebuilt_params s))
               [first_bucket_bytes, bucket_bytes_cap s] (expect_sparse_gradients s ! 0)
               (rebuilt_param_indices s) of
          Inl e \<Rightarrow> Inl (e, s)
        | Inr rebuilt_bucket_indices \<Rightarrow>
            case sync_bucket_indices broadcast_indices broadcast_sizes
                   rebuilt_bucket_indices s of
              Inl e \<Rightarrow> Inl (e, s)
            | Inr synced \<Rightarrow>
                initialize_buckets uninitialized synced
                  (s\<lparr>has_rebuilt_bucket := True, rebuilt_params := [],
                     rebuilt_param_indices := []\<rparr>))"

subsection \<open>The counters of an iteration\<close>

text \<open>
  What the order of the launches depends on.  \<open>shape\<close> is the part of the state that
  marking variables never changes: the number of replicas, the locators, and for every
  bucket its indices and the number of variables of each replica.  \<open>pendings\<close> are the
  counters: for every bucket its pending count and the pending counts of its replicas.
  \<open>bucket_launches\<close> lists the buckets handed to \<^verbatim>\<open>allreduce\<close> or to the hook by
  \<^verbatim>\<open>mark_bucket_ready\<close>, in the order of the calls.
\<close>

definition shape :: "reducer \<Rightarrow> nat \<times> VariableLocator list \<times> (nat list \<times> nat list) list" where
  "shape s =
     (length (replicas s), variable_locators s,
      map (\<lambda>bucket. (variable_indices bucket,
                       map (\<lambda>replica. length (variables replica)) (bucket_replicas bucket)))
          (buckets s))"

definition pendings :: "reducer \<Rightarrow> (nat \<times> nat list) list" where
  "pendings s =
     map (\<lambda>bucket. (bucket_pending bucket, map pending (bucket_replicas bucket))) (buckets s)"

fun launched_bucket :: "collective \<Rightarrow> nat list" where
  "launched_bucket (Allreduce b tensors) = [b]"
| "launched_bucket (RunHook b tensors) = [b]"
| "launched_bucket (AllreduceUsedMaps maps) = []"

definition bucket_launches :: "collective list \<Rightarrow> nat list" where
  "bucket_launches cs = concat (map launched_bucket cs)"

text \<open>
  A state is well shaped when there is a replica, every bucket is non-empty and has one
  bucket replica per replica, each with one variable per index, and locators and bucket
  indices resolve into each other (what \<^verbatim>\<open>initialize_buckets\<close> establishes).
\<close>

definition shape_ok :: "reducer \<Rightarrow> bool" where
  "shape_ok s =
     (replicas s \<noteq> [] \<and>
      (\<forall>bucket\<in>set (buckets s).
          variable_indices bucket \<noteq> [] \<and>
          length (bucket_replicas bucket) = length (replicas s) \<and>
          (\<forall>replica\<in>set (bucket_replicas bucket).
              length (variables replica) = length (variable_indices bucket))) \<and>
      (\<forall>j<length (buckets s). \<forall>i<length (variable_indices (buckets s ! j)).
          variable_indices (buckets s ! j) ! i < length (variable_locators s) \<and>
          variable_locators s ! (variable_indices (buckets s ! j) ! i)
            = \<lparr>bucket_index = j, intra_bucket_index = i\<rparr>) \<and>
      (\<forall>p<length (variable_locators s).
          bucket_index (variable_locators s ! p) < length (buckets s) \<and>
          intra_bucket_index (variable_locators s ! p)
            < length (variable_indices (buckets s ! bucket_index (variable_locators s ! p))) \<and>
          variable_indices (buckets s ! bucket_index (variable_locators s ! p))
            ! intra_bucket_index (variable_locators s ! p) = p))"


definition state_of :: "outcome \<Rightarrow> reducer" where
  "state_of out = (case out of Inl (e, s) \<Rightarrow> s | Inr s \<Rightarrow> s)"

definition error_of :: "outcome \<Rightarrow> error option" where
  "error_of out = (case out of Inl (e, s) \<Rightarrow> Some e | Inr s \<Rightarrow> None)"


subsection \<open>The counters as a machine of their own\<close>






definition unchanged_counters :: "reducer \<Rightarrow> reducer \<Rightarrow> bool" where
  "unchanged_counters s s' =
     (shape s' = shape s \<and> pendings s' = pendings s \<and> next_bucket s' = next_bucket s \<and>
      bucket_launches (collectives s') = bucket_launches (collectives s))"





section \<open>Example configurations\<close>

text \<open>Concrete tensors and inputs on which the definitions are evaluated.\<close>

definition dense_param :: "nat \<Rightarrow> scalar_type \<Rightarrow> nat \<Rightarrow> tensor" where
  "dense_param sid ty n = \<lparr>storage = sid, storage_offset = 0, sizes = [n], strides = [1],
     dtype = ty, device = Device kCPU 0, layout = kStrided,
     non_overlapping_and_dense = True\<rparr>"

definition sparse_param :: "nat \<Rightarrow> scalar_type \<Rightarrow> nat \<Rightarrow> tensor" where
  "sparse_param sid ty n = \<lparr>storage = sid, storage_offset = 0, sizes = [n], strides = [1],
     dtype = ty, device = Device kCPU 0, layout = kSparse,
     non_overlapping_and_dense = False\<rparr>"

definition example_params :: "tensor list" where
  "example_params = [dense_param 0 kFloat 4, dense_param 1 kHalf 4, dense_param 2 kFloat 2,
                     dense_param 3 kFloat 4, dense_param 4 kHalf 2]"

definition example_visit :: "bucket_key list" where
  "example_visit = [BucketKey kHalf (Device kCPU 0), BucketKey kFloat (Device kCPU 0)]"

text \<open>
  Inputs of the bucket assignment: a tensor of \<open>2 ^ 61\<close> doubles (an expanded view, with
  stride 0, of \<open>2 ^ 64\<close> bytes) followed by one double; two floats; three floats.
\<close>

definition example_huge :: "tensor list" where
  "example_huge =
     [\<lparr>storage = 0, storage_offset = 0, sizes = [2305843009213693952], strides = [0],
       dtype = kDouble, device = Device kCPU 0, layout = kStrided,
       non_overlapping_and_dense = False\<rparr>,
      dense_param 1 kDouble 1]"

definition example_pair :: "tensor list" where
  "example_pair = [dense_param 0 kFloat 1, dense_param 1 kFloat 1]"


text \<open>
  A reducer over one replica with the parameters \<open>p0\<close> (four floats) and \<open>p1\<close> (two floats),
  before any bucket has been built; the gradient of \<open>p0\<close> is defined and lives in its own
  storage, the gradient of \<open>p1\<close> is undefined.  \<open>example_memory\<close> holds \<open>1, 2, 3, 4\<close> in
  the storage of that gradient.
\<close>

definition example_memory :: memory where
  "example_memory = (\<lambda>sid pos. if sid = 10 then real pos + 1 else 0)"

definition example_reducer :: reducer where
  "example_reducer =
     \<lparr>replicas = [[\<lparr>grad_slot = 0, param = dense_param 0 kFloat 4\<rparr>,
                   \<lparr>grad_slot = 1, param = dense_param 1 kFloat 2\<rparr>]],
      expect_sparse_gradients = [[False, False]],
      expect_autograd_hooks = False,
      require_finalize = False,
      next_bucket = 0,
      has_marked_unused_parameters = False,
      find_unused_parameters = False,
      local_used_maps_reduced = False,
      has_rebuilt_bucket = False,
      bucket_bytes_cap = 1024,
      comm_hook = None,
      buckets = [],
      variable_locators = [],
      unused_parameters = [],
      func = [(100, \<lparr>replica_index = 0, variable_index = 0\<rparr>),
              (101, \<lparr>replica_index = 0, variable_index = 1\<rparr>)],
      local_used_maps = [[0, 0]],
      local_used_maps_dev = [[0, 0]],
      local_used_work = None,
      rebuilt_params = [],
      rebuilt_param_indices = [],
      grads = (\<lambda>slot. None)(0 \<mapsto> dense_param 10 kFloat 4),
      memory = example_memory,
      next_storage = 20,
      world_size = 2,
      collectives = [],
      queued_finalize = 0\<rparr>"

definition located_pending :: "VariableIndex \<Rightarrow> reducer \<Rightarrow> nat option" where
  "located_pending index s =
     map_option (\<lambda>(locator, bucket, replica). pending replica) (locate index s)"

text \<open>
  The example reducer with one bucket per parameter, and the state of an iteration with
  unused-parameter detection in which the graph reaches only the accumulator of \<open>p0\<close>:
  \<^verbatim>\<open>prepare_for_backward\<close> records \<open>p1\<close> as unused, and the hook of \<open>p0\<close> marks first
  \<open>p1\<close> and then \<open>p0\<close> ready.
\<close>

definition example_built :: reducer where
  "example_built = state_of (initialize_buckets 0 [[0], [1]] example_reducer)"

definition example_unused_iteration :: reducer where
  "example_unused_iteration =
     state_of (autograd_hook ieee_arithmetic \<lparr>replica_index = 0, variable_index = 0\<rparr>
       (state_of (prepare_for_backward [(1, [Some 100])] [Some 1]
          (example_built\<lparr>find_unused_parameters := True\<rparr>))))"

text \<open>
  The built example at the start of an iteration, after the user has replaced the
  gradient of \<open>p0\<close> by a tensor in storage 10; \<open>example_view\<close> is the bucket view of
  \<open>p0\<close>.
\<close>

definition example_fresh_grad :: reducer where
  "example_fresh_grad =
     state_of (prepare_for_backward [] []
       (example_built\<lparr>grads := (grads example_built)(0 \<mapsto> dense_param 10 kFloat 4)\<rparr>))"

definition example_view :: tensor where
  "example_view = empty_tensor 20 4 kFloat (Device kCPU 0)"


text \<open>
  Two more iterations for \<^verbatim>\<open>mark_variable_ready_dense\<close>.  In \<open>example_mistyped\<close> the user
  has replaced the gradient of \<open>p0\<close> by a tensor of doubles, while the bucket view holds
  floats.  \<open>example_thirds\<close> is a reducer in a group of three processes over one parameter
  of one double; its gradient lives in storage 10 and holds \<open>5\<close>.
\<close>

definition example_mistyped :: reducer where
  "example_mistyped =
     example_fresh_grad\<lparr>grads := (grads example_fresh_grad)(0 \<mapsto> dense_param 10 kDouble 4)\<rparr>"

definition example_thirds :: reducer where
  "example_thirds =
     (state_of (prepare_for_backward [] []
        (state_of (initialize_buckets 0 [[0]]
           (example_reducer\<lparr>replicas := [[\<lparr>grad_slot = 0, param = dense_param 0 kDouble 1\<rparr>]],
                             expect_sparse_gradients := [[False]],
                             grads := (\<lambda>slot. None),
                             world_size := 3\<rparr>)))))
       \<lparr>grads := (\<lambda>slot. None)(0 \<mapsto> dense_param 10 kDouble 1),
        memory := (\<lambda>sid pos. if sid = 10 then 5 else 0)\<rparr>"

definition example_thirds_view :: tensor where
  "example_thirds_view = empty_tensor 20 1 kDouble (Device kCPU 0)"



section \<open>Properties of the bucket assignment\<close>

lemma assign_tensor_sparse:
  "is_sparse (tensors ! i) \<Longrightarrow> assign_tensor tensors limits flags tidx i st = Inl NoSupportForSparseTensors"
  by (simp add: assign_tensor_def)

lemma assign_tensor_dense:
  assumes "\<not> is_sparse (tensors ! i)" "i < length tensors" "limits \<noteq> []"
    "flags = [] \<or> length tensors = length flags" "indices_ok (length tensors) flags tidx"
    "iterators_ok limits st"
  shows "\<exists>st'. assign_tensor tensors limits flags tidx i st = Inr st' \<and> iterators_ok limits st'"
  using assms
  by (auto simp: assign_tensor_def tensor_index_at_def indices_ok_def iterators_ok_def Let_def
      split: option.splits)

lemma for_each_sparse_fails:
  "\<exists>j\<in>set xs. is_sparse (tensors ! j) \<Longrightarrow>
   \<exists>e. for_each xs (assign_tensor tensors limits flags tidx) st = Inl e"
proof (induction xs arbitrary: st)
  case Nil
  then show ?case by simp
next
  case (Cons i xs)
  show ?case
  proof (cases "assign_tensor tensors limits flags tidx i st")
    case (Inl e)
    then show ?thesis by simp
  next
    case (Inr st')
    then have "\<not> is_sparse (tensors ! i)"
      using assign_tensor_sparse [of tensors i limits flags tidx st] by auto
    with Cons.prems have "\<exists>j\<in>set xs. is_sparse (tensors ! j)" by auto
    from Cons.IH [OF this] Inr show ?thesis by simp
  qed
qed

lemma for_each_sparse_error:
  assumes "limits \<noteq> []" "flags = [] \<or> length tensors = length flags"
    "indices_ok (length tensors) flags tidx"
  shows "\<exists>j\<in>set xs. is_sparse (tensors ! j) \<Longrightarrow> \<forall>j\<in>set xs. j < length tensors \<Longrightarrow>
     iterators_ok limits st \<Longrightarrow>
     for_each xs (assign_tensor tensors limits flags tidx) st = Inl NoSupportForSparseTensors"
proof (induction xs arbitrary: st)
  case Nil
  then show ?case by simp
next
  case (Cons i xs)
  show ?case
  proof (cases "is_sparse (tensors ! i)")
    case True
    then show ?thesis by (simp add: assign_tensor_sparse)
  next
    case False
    with Cons.prems assms obtain st' where
      st': "assign_tensor tensors limits flags tidx i st = Inr st'" "iterators_ok limits st'"
      using assign_tensor_dense [of tensors i limits flags tidx st] by auto
    from False Cons.prems have "\<exists>j\<in>set xs. is_sparse (tensors ! j)" by auto
    moreover from Cons.prems have "\<forall>j\<in>set xs. j < length tensors" by simp
    ultimately show ?thesis using Cons.IH st' by simp
  qed
qed

text \<open>
  Claim C10.  \<^verbatim>\<open>compute_bucket_assignment_by_size\<close> fails whenever some tensor of its
  input list has sparse layout, whatever the flag vector says about it: the check
  \<^verbatim>\<open>TORCH_CHECK(!tensor.is_sparse(), ...)\<close> precedes the test of the flag.  The first
  conjunct is the failure itself; the second says that on inputs on which nothing else
  goes wrong the failure is that very check.  Singleton buckets for sparse gradients
  therefore come from the flag vector alone.
\<close>

theorem sparse_layout_input_rejected:
  assumes "i < length tensors" and "is_sparse (tensors ! i)"
  shows "(\<exists>e. compute_bucket_assignment_by_size visit tensors limits flags tidx = Inl e) \<and>
         (limits \<noteq> [] \<and> (flags = [] \<or> length tensors = length flags) \<and>
          indices_ok (length tensors) flags tidx \<longrightarrow>
          compute_bucket_assignment_by_size visit tensors limits flags tidx
            = Inl NoSupportForSparseTensors)"
proof -
  let ?init = "\<lparr>result = [], bucket_size_limit_iterators = Map.empty, accumulators = Map.empty\<rparr>"
  from assms have ex: "\<exists>j\<in>set [0..<length tensors]. is_sparse (tensors ! j)" by auto
  from for_each_sparse_fails [OF ex] obtain e where
    "for_each [0..<length tensors] (assign_tensor tensors limits flags tidx) ?init = Inl e"
    by blast
  then have first: "\<exists>e. compute_bucket_assignment_by_size visit tensors limits flags tidx = Inl e"
    by (auto simp: compute_bucket_assignment_by_size_def)
  have second: "compute_bucket_assignment_by_size visit tensors limits flags tidx
            = Inl NoSupportForSparseTensors"
    if wf: "limits \<noteq> []" "flags = [] \<or> length tensors = length flags"
      "indices_ok (length tensors) flags tidx"
  proof -
    have "iterators_ok limits ?init" by (simp add: iterators_ok_def)
    then have "for_each [0..<length tensors] (assign_tensor tensors limits flags tidx) ?init
        = Inl NoSupportForSparseTensors"
      using for_each_sparse_error [OF wf ex] by simp
    with wf assms show ?thesis
      by (auto simp: compute_bucket_assignment_by_size_def)
  qed
  from first second show ?thesis by blast
qed

theorem sparse_layout_input_rejected_witness:
  "1 < length [dense_param 0 kFloat 4, sparse_param 1 kFloat 4] \<and>
   is_sparse ([dense_param 0 kFloat 4, sparse_param 1 kFloat 4] ! 1) \<and>
   [False, True] ! 1 \<and>
   compute_bucket_assignment_by_size example_visit
     [dense_param 0 kFloat 4, sparse_param 1 kFloat 4] [1024] [False, True] []
     = Inl NoSupportForSparseTensors"
  using sparse_layout_input_rejected
    [of 1 "[dense_param 0 kFloat 4, sparse_param 1 kFloat 4]" example_visit "[1024]"
        "[False, True]" "[]"]
  by (simp add: sparse_param_def is_sparse_def indices_ok_def)

lemma mset_concat_map_upd:
  "distinct visit \<Longrightarrow> key \<in> set visit \<Longrightarrow>
   mset (concat (map (f(key := v)) visit)) + mset (f key) = mset (concat (map f visit)) + mset v"
proof (induction visit)
  case Nil
  then show ?case by simp
next
  case (Cons k ks)
  show ?case
  proof (cases "k = key")
    case True
    with Cons.prems have "key \<notin> set ks" by simp
    then have eq: "map (f(key := v)) ks = map f ks" by (induction ks) auto
    have "concat (map (f(key := v)) (k # ks)) = v @ concat (map f ks)"
      unfolding list.map concat.simps eq using True by simp
    moreover have "concat (map f (k # ks)) = f key @ concat (map f ks)"
      using True by simp
    ultimately show ?thesis by (simp only: mset_append ac_simps)
  next
    case False
    with Cons show ?thesis by (simp add: ac_simps)
  qed
qed

lemma pending_indices_upd:
  "pending_indices (st\<lparr>accumulators := (accumulators st)(key \<mapsto> b)\<rparr>) = (pending_indices st)(key := acc_indices b)"
  "pending_indices (st\<lparr>accumulators := (accumulators st)(key \<mapsto> b), bucket_size_limit_iterators := its\<rparr>) = (pending_indices st)(key := acc_indices b)"
  "pending_indices (st\<lparr>result := r, accumulators := (accumulators st)(key \<mapsto> b), bucket_size_limit_iterators := its\<rparr>) = (pending_indices st)(key := acc_indices b)"
  "pending_indices (st\<lparr>result := r\<rparr>) = pending_indices st"
  by (auto simp: pending_indices_def fun_eq_iff)

lemma tensor_index_at_ok:
  "indices_ok n flags tidx \<Longrightarrow> i < n \<Longrightarrow> tensor_index_at tidx i = Inr (recorded_index tidx i)"
  by (auto simp: indices_ok_def tensor_index_at_def recorded_index_def)

lemma recorded_index_in_flags:
  "indices_ok n flags tidx \<Longrightarrow> flags = [] \<or> n = length flags \<Longrightarrow> i < n \<Longrightarrow> flags \<noteq> [] \<Longrightarrow>
   recorded_index tidx i < length flags"
  by (auto simp: indices_ok_def recorded_index_def)

lemma dense_bucket_Nil [simp]: "dense_bucket tensors flags tidx key []"
  by (simp add: dense_bucket_def)

lemma dense_bucket_snoc:
  "dense_bucket tensors flags tidx key (b @ [x]) \<longleftrightarrow>
   dense_bucket tensors flags tidx key b \<and> \<not> sparse_flagged flags x \<and>
   (\<exists>i<length tensors. recorded_index tidx i = x \<and> tensor_key (tensors ! i) = key)"
  by (auto simp: dense_bucket_def)

lemma assign_tensor_inv:
  assumes wf: "assignment_defined visit tensors limits flags tidx"
      and i: "i < length tensors"
      and inv: "assign_inv visit tensors limits flags tidx ps st"
  shows "\<exists>st'. assign_tensor tensors limits flags tidx i st = Inr st' \<and>
           assign_inv visit tensors limits flags tidx (ps @ [i]) st'"
proof -
  define x where "x = recorded_index tidx i"
  define key where "key = tensor_key (tensors ! i)"
  define b0 where "b0 = (case accumulators st key of None \<Rightarrow> BucketAccumulator | Some b \<Rightarrow> b)"
  define it where "it = (case bucket_size_limit_iterators st key of None \<Rightarrow> 0 | Some p \<Rightarrow> p)"
  from wf i have dense: "\<not> is_sparse (tensors ! i)" and lim: "limits \<noteq> []"
    and vis: "distinct visit" "key \<in> set visit"
    and idx: "tensor_index_at tidx i = Inr x"
    by (auto simp: assignment_defined_def key_def x_def tensor_index_at_ok)
  from wf i have xr: "flags \<noteq> [] \<Longrightarrow> x < length flags"
    unfolding x_def assignment_defined_def using recorded_index_in_flags by blast
  from inv have itok: "iterators_ok limits st"
    and ms: "mset (concat (result st)) + mset (concat (map (pending_indices st) visit))
        = mset (map (recorded_index tidx) ps)"
    and outside: "\<forall>key. key \<notin> set visit \<longrightarrow> accumulators st key = None"
    and nonempty: "[] \<notin> set (result st)"
    and flagged: "\<forall>i\<in>set ps. sparse_flagged flags (recorded_index tidx i) \<longrightarrow> [recorded_index tidx i] \<in> set (result st)"
    and kinds: "\<forall>b\<in>set (result st). sparse_bucket tensors flags tidx b \<or> (\<exists>key. dense_bucket tensors flags tidx key b)"
    and pend: "\<forall>key. dense_bucket tensors flags tidx key (pending_indices st key)"
    by (simp_all add: assign_inv_def)
  from itok lim have itlt: "it < length limits"
    by (auto simp: it_def iterators_ok_def split: option.splits)
  have b0: "acc_indices b0 = pending_indices st key"
    by (simp add: b0_def pending_indices_def BucketAccumulator_def split: option.splits)
  show ?thesis
  proof (cases "sparse_flagged flags x")
    case True
    then have step: "assign_tensor tensors limits flags tidx i st = Inr (st\<lparr>result := result st @ [[x]]\<rparr>)"
      using dense idx xr by (simp add: assign_tensor_def sparse_flagged_def)
    have "sparse_bucket tensors flags tidx [x]"
      using True i by (auto simp: sparse_bucket_def x_def)
    then have "assign_inv visit tensors limits flags tidx (ps @ [i]) (st\<lparr>result := result st @ [[x]]\<rparr>)"
      using itok ms outside nonempty flagged kinds pend
      by (auto simp: assign_inv_def iterators_ok_def pending_indices_upd x_def)
    with step show ?thesis by blast
  next
    case False
    have xdense: "\<exists>j<length tensors. recorded_index tidx j = x \<and> tensor_key (tensors ! j) = key"
      using i by (auto simp: x_def key_def)
    have newb: "dense_bucket tensors flags tidx key (pending_indices st key @ [x])"
      using pend False xdense by (simp add: dense_bucket_snoc)
    show ?thesis
    proof (cases "size_t_of_nat (acc_size b0 + numel (tensors ! i) * element_size (tensors ! i))
                    \<ge> limits ! it")
      case emit: True
      define st' where "st' = st\<lparr>result := result st @ [pending_indices st key @ [x]],
                             accumulators := (accumulators st)(key \<mapsto> BucketAccumulator),
                             bucket_size_limit_iterators :=
                               (bucket_size_limit_iterators st)
                                 (key \<mapsto> (if it + 1 \<noteq> length limits then it + 1 else it))\<rparr>"
      have step: "assign_tensor tensors limits flags tidx i st = Inr st'"
        using dense idx xr False emit itlt
        by (auto simp: assign_tensor_def sparse_flagged_def Let_def b0 st'_def
            tensor_key_def [symmetric] simp flip: key_def b0_def it_def)
      have p': "pending_indices st' = (pending_indices st)(key := [])"
        by (simp add: st'_def pending_indices_upd BucketAccumulator_def)
      have "mset (concat (map (pending_indices st') visit)) + mset (pending_indices st key)
            = mset (concat (map (pending_indices st) visit)) + mset []"
        unfolding p' using vis by (rule mset_concat_map_upd)
      then have ms': "mset (concat (result st')) + mset (concat (map (pending_indices st') visit))
        = mset (map (recorded_index tidx) (ps @ [i]))"
        using ms by (simp add: st'_def x_def ac_simps)
      have "iterators_ok limits st'"
        using itok itlt by (auto simp: iterators_ok_def st'_def)
      moreover have "\<forall>k. k \<notin> set visit \<longrightarrow> accumulators st' k = None"
        using outside vis by (auto simp: st'_def)
      moreover have "[] \<notin> set (result st')" using nonempty by (simp add: st'_def)
      moreover have "\<forall>j\<in>set (ps @ [i]). sparse_flagged flags (recorded_index tidx j) \<longrightarrow> [recorded_index tidx j] \<in> set (result st')"
        using flagged False by (auto simp: st'_def x_def)
      moreover have "\<forall>b\<in>set (result st'). sparse_bucket tensors flags tidx b \<or> (\<exists>key. dense_bucket tensors flags tidx key b)"
        using kinds newb by (auto simp: st'_def)
      moreover have "\<forall>k. dense_bucket tensors flags tidx k (pending_indices st' k)"
        using pend by (simp add: p')
      ultimately have "assign_inv visit tensors limits flags tidx (ps @ [i]) st'"
        using ms' unfolding assign_inv_def by blast
      with step show ?thesis by blast
    next
      case keep: False
      define st' where "st' = st\<lparr>accumulators := (accumulators st)(key \<mapsto>
               b0\<lparr>acc_indices := acc_indices b0 @ [x],
                  acc_size := size_t_of_nat
                    (acc_size b0 + numel (tensors ! i) * element_size (tensors ! i))\<rparr>),
             bucket_size_limit_iterators := (bucket_size_limit_iterators st)(key \<mapsto> it)\<rparr>"
      have step: "assign_tensor tensors limits flags tidx i st = Inr st'"
        using dense idx xr False keep itlt
        by (auto simp: assign_tensor_def sparse_flagged_def Let_def st'_def
            tensor_key_def [symmetric] simp flip: key_def b0_def it_def)
      have p': "pending_indices st' = (pending_indices st)(key := pending_indices st key @ [x])"
        by (simp add: st'_def pending_indices_upd b0)
      have "mset (concat (map (pending_indices st') visit)) + mset (pending_indices st key)
            = mset (concat (map (pending_indices st) visit)) + mset (pending_indices st key @ [x])"
        unfolding p' using vis by (rule mset_concat_map_upd)
      then have ms': "mset (concat (result st')) + mset (concat (map (pending_indices st') visit))
        = mset (map (recorded_index tidx) (ps @ [i]))"
        using ms by (simp add: st'_def x_def ac_simps)
      have "iterators_ok limits st'"
        using itok itlt by (auto simp: iterators_ok_def st'_def)
      moreover have "\<forall>k. k \<notin> set visit \<longrightarrow> accumulators st' k = None"
        using outside vis by (auto simp: st'_def)
      moreover have "[] \<notin> set (result st')" using nonempty by (simp add: st'_def)
      moreover have "\<forall>j\<in>set (ps @ [i]). sparse_flagged flags (recorded_index tidx j) \<longrightarrow> [recorded_index tidx j] \<in> set (result st')"
        using flagged False by (auto simp: st'_def x_def)
      moreover have "\<forall>b\<in>set (result st'). sparse_bucket tensors flags tidx b \<or> (\<exists>key. dense_bucket tensors flags tidx key b)"
        using kinds by (auto simp: st'_def)
      moreover have "\<forall>k. dense_bucket tensors flags tidx k (pending_indices st' k)"
        using pend newb by (simp add: p')
      ultimately have "assign_inv visit tensors limits flags tidx (ps @ [i]) st'"
        using ms' unfolding assign_inv_def by blast
      with step show ?thesis by blast
    qed
  qed
qed

lemma for_each_assign_inv:
  assumes wf: "assignment_defined visit tensors limits flags tidx"
  shows "\<forall>i\<in>set xs. i < length tensors \<Longrightarrow> assign_inv visit tensors limits flags tidx ps st \<Longrightarrow>
    \<exists>st'. for_each xs (assign_tensor tensors limits flags tidx) st = Inr st' \<and>
          assign_inv visit tensors limits flags tidx (ps @ xs) st'"
proof (induction xs arbitrary: ps st)
  case Nil
  then show ?case by simp
next
  case (Cons i xs)
  from Cons.prems obtain st1 where
    st1: "assign_tensor tensors limits flags tidx i st = Inr st1"
      "assign_inv visit tensors limits flags tidx (ps @ [i]) st1"
    using assign_tensor_inv [OF wf, of i ps st] by auto
  from Cons.prems have "\<forall>j\<in>set xs. j < length tensors" by simp
  from Cons.IH [OF this st1(2)] st1(1) show ?case by simp
qed

lemma assign_inv_init:
  "assign_inv visit tensors limits flags tidx []
     \<lparr>result = [], bucket_size_limit_iterators = Map.empty, accumulators = Map.empty\<rparr>"
  by (simp add: assign_inv_def iterators_ok_def pending_indices_def)

lemma concat_remaining_buckets:
  "concat (remaining_buckets visit st) = concat (map (pending_indices st) visit)"
  by (induction visit) (auto simp: remaining_buckets_def pending_indices_def split: option.splits)

lemma remaining_buckets_filter:
  "remaining_buckets visit st = filter (\<lambda>b. b \<noteq> []) (map (pending_indices st) visit)"
  by (induction visit) (auto simp: remaining_buckets_def pending_indices_def split: option.splits)

lemma in_remaining_buckets:
  "b \<in> set (remaining_buckets visit st) \<longleftrightarrow>
   b \<noteq> [] \<and> (\<exists>key\<in>set visit. pending_indices st key = b)"
  by (auto simp: remaining_buckets_filter)

lemma assignment_post_mset:
  "mset bs' = mset bs \<Longrightarrow> assignment_post tensors flags tidx bs \<Longrightarrow> assignment_post tensors flags tidx bs'"
proof -
  assume eq: "mset bs' = mset bs" and post: "assignment_post tensors flags tidx bs"
  from eq have s: "set bs' = set bs" by (rule mset_eq_setD)
  have "mset (concat bs') = sum_mset (image_mset mset (mset bs'))"
    by (simp add: mset_concat sum_mset_sum_list [symmetric])
  also have "\<dots> = sum_mset (image_mset mset (mset bs))" by (simp add: eq)
  also have "\<dots> = mset (concat bs)"
    by (simp add: mset_concat sum_mset_sum_list [symmetric])
  finally have "mset (concat bs') = mset (concat bs)" .
  with post s show ?thesis by (simp add: assignment_post_def)
qed

lemma compute_bucket_assignment_post:
  assumes wf: "assignment_defined visit tensors limits flags tidx"
  shows "\<exists>bs. compute_bucket_assignment_by_size visit tensors limits flags tidx = Inr bs \<and>
           assignment_post tensors flags tidx bs"
proof -
  let ?init = "\<lparr>result = [], bucket_size_limit_iterators = Map.empty, accumulators = Map.empty\<rparr>"
  have "\<forall>i\<in>set [0..<length tensors]. i < length tensors" by simp
  from for_each_assign_inv [OF wf this assign_inv_init] obtain st where
    run: "for_each [0..<length tensors] (assign_tensor tensors limits flags tidx) ?init = Inr st"
    and inv: "assign_inv visit tensors limits flags tidx [0..<length tensors] st"
    by auto
  let ?bs = "result st @ remaining_buckets visit st"
  from inv have pend: "dense_bucket tensors flags tidx key (pending_indices st key)" for key
    by (simp add: assign_inv_def)
  have "\<forall>b\<in>set (remaining_buckets visit st). \<exists>key. dense_bucket tensors flags tidx key b"
  proof
    fix b assume "b \<in> set (remaining_buckets visit st)"
    then obtain key where "pending_indices st key = b" by (auto simp: in_remaining_buckets)
    with pend [of key] show "\<exists>key. dense_bucket tensors flags tidx key b" by blast
  qed
  moreover have "[] \<notin> set (remaining_buckets visit st)"
    by (simp add: in_remaining_buckets)
  ultimately have post: "assignment_post tensors flags tidx ?bs"
    using inv
    by (auto simp: assignment_post_def assign_inv_def concat_remaining_buckets)
  have res: "compute_bucket_assignment_by_size visit tensors limits flags tidx
        = Inr (if tidx = [] then sort_key min_list ?bs else ?bs)"
    using wf run by (auto simp: compute_bucket_assignment_by_size_def assignment_defined_def Let_def)
  have "assignment_post tensors flags tidx (if tidx = [] then sort_key min_list ?bs else ?bs)"
    using post assignment_post_mset [of "sort_key min_list ?bs" ?bs tensors flags tidx]
    by (cases "tidx = []") simp_all
  with res show ?thesis by blast
qed

lemma distinct_concat_unique_position:
  "distinct (concat bs) \<Longrightarrow> k < length bs \<Longrightarrow> k' < length bs \<Longrightarrow>
   x \<in> set (bs ! k) \<Longrightarrow> x \<in> set (bs ! k') \<Longrightarrow> k = k'"
proof (induction bs arbitrary: k k')
  case Nil
  then show ?case by simp
next
  case (Cons b bs)
  show ?case
  proof (cases k)
    case 0
    show ?thesis
    proof (cases k')
      case 0
      with \<open>k = 0\<close> show ?thesis by simp
    next
      case (Suc m)
      with Cons.prems \<open>k = 0\<close> have "x \<in> set b" "x \<in> set (concat bs)" by auto
      with Cons.prems(1) show ?thesis by auto
    qed
  next
    case (Suc n)
    show ?thesis
    proof (cases k')
      case 0
      with Cons.prems Suc have "x \<in> set b" "x \<in> set (concat bs)" by auto
      with Cons.prems(1) show ?thesis by auto
    next
      case (Suc m)
      with Cons.prems \<open>k = Suc n\<close> have "n = m"
        using Cons.IH [of n m] by auto
      with Suc \<open>k = Suc n\<close> show ?thesis by simp
    qed
  qed
qed

lemma bucket_kinds_same_key:
  assumes inj: "distinct_indices (length tensors) tidx"
    and kind: "sparse_bucket tensors flags tidx b \<or> (\<exists>key. dense_bucket tensors flags tidx key b)"
    and i: "i < length tensors" "recorded_index tidx i \<in> set b"
    and j: "j < length tensors" "recorded_index tidx j \<in> set b"
  shows "tensor_key (tensors ! i) = tensor_key (tensors ! j)"
proof -
  have inj': "\<And>a c. a < length tensors \<Longrightarrow> c < length tensors \<Longrightarrow>
      recorded_index tidx a = recorded_index tidx c \<Longrightarrow> a = c"
    using inj unfolding distinct_indices_def distinct_map by (auto dest: inj_onD)
  from kind show ?thesis
  proof
    assume "sparse_bucket tensors flags tidx b"
    then obtain m where "m < length tensors" "b = [recorded_index tidx m]"
      by (auto simp: sparse_bucket_def)
    with i j inj' have "i = m" "j = m" by auto
    then show ?thesis by simp
  next
    assume "\<exists>key. dense_bucket tensors flags tidx key b"
    then obtain key where d: "dense_bucket tensors flags tidx key b" ..
    from d i obtain a where "a < length tensors" "recorded_index tidx a = recorded_index tidx i"
      "tensor_key (tensors ! a) = key" by (auto simp: dense_bucket_def)
    with i inj' have ki: "tensor_key (tensors ! i) = key" by auto
    from d j obtain c where "c < length tensors" "recorded_index tidx c = recorded_index tidx j"
      "tensor_key (tensors ! c) = key" by (auto simp: dense_bucket_def)
    with j inj' have "tensor_key (tensors ! j) = key" by auto
    with ki show ?thesis by simp
  qed
qed

text \<open>
  Claim C2, as stated, promises a partition for every non-empty tensor list.  The source
  rejects a list that holds a tensor of sparse layout, so nothing is returned there:
\<close>

theorem partition_claim_counterexample:
  "[dense_param 0 kFloat 4, sparse_param 1 kFloat 4] \<noteq> [] \<and> 1 \<le> length [16, 32 :: nat] \<and>
   compute_bucket_assignment_by_size example_visit
     [dense_param 0 kFloat 4, sparse_param 1 kFloat 4] [16, 32] [] []
     = Inl NoSupportForSparseTensors"
  by code_simp

text \<open>
  Claim C2, amended.  For every non-empty list of tensors none of which has sparse
  layout, every budget sequence of length at least one, a flag vector that is empty or
  as long as the tensor list, and explicit indices that are absent or come one per
  tensor, pairwise distinct and inside a non-empty flag vector,
  \<^verbatim>\<open>compute_bucket_assignment_by_size\<close> returns buckets such that: every intended index
  lies in exactly one bucket; the buckets together hold exactly the intended indices,
  none twice; no bucket is empty; every tensor whose flag is set is a bucket of its own;
  and two tensors whose indices share a bucket agree in element type and device.
\<close>

theorem bucket_assignment_partition:
  assumes wf: "assignment_defined visit tensors limits flags tidx"
    and inj: "distinct_indices (length tensors) tidx"
  shows "\<exists>bs. compute_bucket_assignment_by_size visit tensors limits flags tidx = Inr bs \<and>
      (\<forall>i<length tensors. \<exists>!k. k < length bs \<and> recorded_index tidx i \<in> set (bs ! k)) \<and>
      set (concat bs) = recorded_index tidx ` {..<length tensors} \<and>
      distinct (concat bs) \<and>
      [] \<notin> set bs \<and>
      (\<forall>i<length tensors. sparse_flagged flags (recorded_index tidx i) \<longrightarrow>
          [recorded_index tidx i] \<in> set bs) \<and>
      (\<forall>b\<in>set bs. \<forall>i<length tensors. \<forall>j<length tensors.
          recorded_index tidx i \<in> set b \<and> recorded_index tidx j \<in> set b \<longrightarrow>
          dtype (tensors ! i) = dtype (tensors ! j) \<and> device (tensors ! i) = device (tensors ! j))"
proof -
  from compute_bucket_assignment_post [OF wf] obtain bs where
    res: "compute_bucket_assignment_by_size visit tensors limits flags tidx = Inr bs"
    and post: "assignment_post tensors flags tidx bs" by blast
  from post have ms: "mset (concat bs) = mset (map (recorded_index tidx) [0..<length tensors])"
    and ne: "[] \<notin> set bs"
    and fl: "\<forall>i<length tensors. sparse_flagged flags (recorded_index tidx i) \<longrightarrow>
          [recorded_index tidx i] \<in> set bs"
    and kinds: "\<forall>b\<in>set bs. sparse_bucket tensors flags tidx b \<or> (\<exists>key. dense_bucket tensors flags tidx key b)"
    by (simp_all add: assignment_post_def)
  from ms have "set (concat bs) = set (map (recorded_index tidx) [0..<length tensors])"
    by (rule mset_eq_setD)
  then have st: "set (concat bs) = recorded_index tidx ` {..<length tensors}"
    by (simp add: atLeast0LessThan)
  from ms inj have dist: "distinct (concat bs)"
    unfolding distinct_indices_def by (metis mset_eq_imp_distinct_iff)
  have uniq: "\<exists>!k. k < length bs \<and> recorded_index tidx i \<in> set (bs ! k)" if "i < length tensors" for i
  proof -
    from that st have "recorded_index tidx i \<in> set (concat bs)" by blast
    then obtain b where "b \<in> set bs" "recorded_index tidx i \<in> set b" by auto
    then obtain k where k: "k < length bs" "recorded_index tidx i \<in> set (bs ! k)"
      by (auto simp: in_set_conv_nth)
    show ?thesis
    proof (rule ex1I [of _ k])
      from k show "k < length bs \<and> recorded_index tidx i \<in> set (bs ! k)" by simp
    next
      fix k' assume "k' < length bs \<and> recorded_index tidx i \<in> set (bs ! k')"
      then have k': "k' < length bs" "recorded_index tidx i \<in> set (bs ! k')" by simp_all
      from distinct_concat_unique_position [OF dist k'(1) k(1) k'(2) k(2)] show "k' = k" .
    qed
  qed
  have mix: "dtype (tensors ! i) = dtype (tensors ! j) \<and> device (tensors ! i) = device (tensors ! j)"
    if "b \<in> set bs" "i < length tensors" "j < length tensors"
      "recorded_index tidx i \<in> set b" "recorded_index tidx j \<in> set b" for b i j
  proof -
    from kinds that(1) have "sparse_bucket tensors flags tidx b \<or> (\<exists>key. dense_bucket tensors flags tidx key b)"
      by blast
    from bucket_kinds_same_key [OF inj this that(2,4,3,5)] show ?thesis
      by (simp add: tensor_key_def)
  qed
  have u: "\<forall>i<length tensors. \<exists>!k. k < length bs \<and> recorded_index tidx i \<in> set (bs ! k)"
    by (intro allI impI) (rule uniq)
  have m: "\<forall>b\<in>set bs. \<forall>i<length tensors. \<forall>j<length tensors.
          recorded_index tidx i \<in> set b \<and> recorded_index tidx j \<in> set b \<longrightarrow>
          dtype (tensors ! i) = dtype (tensors ! j) \<and> device (tensors ! i) = device (tensors ! j)"
    by (intro ballI allI impI, elim conjE, rule mix)
  show ?thesis
    by (rule exI [of _ bs]) (intro conjI res u st dist ne fl m)
qed

theorem bucket_assignment_partition_witness:
  "assignment_defined example_visit example_params [16, 32]
     [False, False, True, False, False] [3, 4, 0, 1, 2] \<and>
   distinct_indices (length example_params) [3, 4, 0, 1, 2] \<and>
   compute_bucket_assignment_by_size example_visit example_params [16, 32]
     [False, False, True, False, False] [3, 4, 0, 1, 2] = Inr [[3], [2], [4], [0, 1]] \<and>
   (\<exists>bs. compute_bucket_assignment_by_size example_visit example_params [16, 32]
           [False, False, True, False, False] [3, 4, 0, 1, 2] = Inr bs \<and>
         distinct (concat bs) \<and> [] \<notin> set bs)"
proof -
  have wf: "assignment_defined example_visit example_params [16, 32]
     [False, False, True, False, False] [3, 4, 0, 1, 2]"
    by code_simp
  have inj: "distinct_indices (length example_params) [3, 4, 0, 1, 2]"
    by code_simp
  have val: "compute_bucket_assignment_by_size example_visit example_params [16, 32]
     [False, False, True, False, False] [3, 4, 0, 1, 2] = Inr [[3], [2], [4], [0, 1]]"
    by code_simp
  from bucket_assignment_partition [OF wf inj] have
    "\<exists>bs. compute_bucket_assignment_by_size example_visit example_params [16, 32]
           [False, False, True, False, False] [3, 4, 0, 1, 2] = Inr bs \<and>
         distinct (concat bs) \<and> [] \<notin> set bs"
    by blast
  with wf inj val show ?thesis by blast
qed

subsection \<open>The assignment against the reference algorithm\<close>

lemma size_t_of_nat_small: "n < 2 ^ 64 \<Longrightarrow> size_t_of_nat n = n"
  by (simp add: size_t_of_nat_def)

lemma group_of_simps [simp]:
  "group_of (st\<lparr>result := r\<rparr>) = group_of st"
  "group_of (st\<lparr>result := r, accumulators := (accumulators st)(key \<mapsto> b),
       bucket_size_limit_iterators := (bucket_size_limit_iterators st)(key \<mapsto> p)\<rparr>)
   = (group_of st)(key := \<lparr>accumulator = acc_indices b, running_size = acc_size b, budget_pointer = p\<rparr>)"
  "group_of (st\<lparr>accumulators := (accumulators st)(key \<mapsto> b),
       bucket_size_limit_iterators := (bucket_size_limit_iterators st)(key \<mapsto> p)\<rparr>)
   = (group_of st)(key := \<lparr>accumulator = acc_indices b, running_size = acc_size b, budget_pointer = p\<rparr>)"
  by (auto simp: group_of_def fun_eq_iff)

lemma assign_tensor_step:
  assumes "\<not> is_sparse (tensors ! i)" and "tensor_index_at tidx i = Inr x"
    and "flags \<noteq> [] \<Longrightarrow> x < length flags"
    and "key = BucketKey (dtype (tensors ! i)) (device (tensors ! i))"
    and "b0 = (case accumulators st key of None \<Rightarrow> BucketAccumulator | Some b \<Rightarrow> b)"
    and "it = (case bucket_size_limit_iterators st key of None \<Rightarrow> 0 | Some p \<Rightarrow> p)"
    and "sz = size_t_of_nat (acc_size b0 + numel (tensors ! i) * element_size (tensors ! i))"
    and "it < length limits"
  shows "assign_tensor tensors limits flags tidx i st =
    Inr (if flags \<noteq> [] \<and> flags ! x then st\<lparr>result := result st @ [[x]]\<rparr>
         else if limits ! it \<le> sz
         then st\<lparr>result := result st @ [acc_indices b0 @ [x]],
                 accumulators := (accumulators st)(key \<mapsto> BucketAccumulator),
                 bucket_size_limit_iterators :=
                   (bucket_size_limit_iterators st)
                     (key \<mapsto> (if it + 1 \<noteq> length limits then it + 1 else it))\<rparr>
         else st\<lparr>accumulators := (accumulators st)(key \<mapsto>
                   b0\<lparr>acc_indices := acc_indices b0 @ [x], acc_size := sz\<rparr>),
                 bucket_size_limit_iterators := (bucket_size_limit_iterators st)(key \<mapsto> it)\<rparr>)"
  unfolding assign_tensor_def Let_def using assms by auto

lemma for_each_refines_reference:
  assumes lim: "limits \<noteq> []" and fl: "flags = [] \<or> length tensors = length flags"
    and ix: "indices_ok (length tensors) flags tidx"
  shows "\<forall>i\<in>set xs. i < length tensors \<and> \<not> is_sparse (tensors ! i) \<Longrightarrow> iterators_ok limits st \<Longrightarrow>
    \<forall>key. running_size (group_of st key) + sum_list (map (\<lambda>i. bytes_of (tensors ! i)) xs) < 2 ^ 64 \<Longrightarrow>
    \<exists>st' bs. for_each xs (assign_tensor tensors limits flags tidx) st = Inr st' \<and>
      reference_emit limits (map (item_at tensors flags tidx) xs) (group_of st) = (bs, group_of st') \<and>
      result st' = result st @ bs"
proof (induction xs arbitrary: st)
  case Nil
  then show ?case by simp
next
  case (Cons i xs)
  define x where "x = recorded_index tidx i"
  define key where "key = BucketKey (dtype (tensors ! i)) (device (tensors ! i))"
  define b0 where "b0 = (case accumulators st key of None \<Rightarrow> BucketAccumulator | Some b \<Rightarrow> b)"
  define it where "it = (case bucket_size_limit_iterators st key of None \<Rightarrow> 0 | Some p \<Rightarrow> p)"
  define sz where "sz = acc_size b0 + numel (tensors ! i) * element_size (tensors ! i)"
  define rest_bytes where "rest_bytes = sum_list (map (\<lambda>i. bytes_of (tensors ! i)) xs)"
  from Cons.prems have i: "i < length tensors" and dense: "\<not> is_sparse (tensors ! i)"
    and rest: "\<forall>j\<in>set xs. j < length tensors \<and> \<not> is_sparse (tensors ! j)" by simp_all
  from ix i have idx: "tensor_index_at tidx i = Inr x" by (simp add: x_def tensor_index_at_ok)
  from ix fl i have xr: "flags \<noteq> [] \<Longrightarrow> x < length flags"
    unfolding x_def using recorded_index_in_flags by blast
  from Cons.prems lim have itlt: "it < length limits"
    by (auto simp: it_def iterators_ok_def split: option.splits)
  have g: "accumulator (group_of st key) = acc_indices b0" "running_size (group_of st key) = acc_size b0"
    "budget_pointer (group_of st key) = it"
    by (simp_all add: group_of_def b0_def it_def BucketAccumulator_def split: option.splits)
  from Cons.prems(3) have bound: "running_size (group_of st k) + bytes_of (tensors ! i) + rest_bytes < 2 ^ 64"
    for k by (simp add: rest_bytes_def add.assoc)
  from bound [of key] have szb: "sz + rest_bytes < 2 ^ 64"
    by (simp add: g sz_def bytes_of_def)
  then have small: "size_t_of_nat sz = sz" by (intro size_t_of_nat_small) simp
  obtain st1 where st1: "assign_tensor tensors limits flags tidx i st = Inr st1" "iterators_ok limits st1"
    using assign_tensor_dense [OF dense i lim fl ix Cons.prems(2)] by blast
  have szw: "sz = size_t_of_nat (acc_size b0 + numel (tensors ! i) * element_size (tensors ! i))"
    using small by (simp add: sz_def)
  note step = assign_tensor_step [OF dense idx xr key_def b0_def it_def szw itlt]
  have flag: "sparse_flagged flags x = (flags \<noteq> [] \<and> flags ! x)"
    by (simp add: sparse_flagged_def)
  have st1_cases: "st1 = (if flags \<noteq> [] \<and> flags ! x then st\<lparr>result := result st @ [[x]]\<rparr>
         else if limits ! it \<le> sz
         then st\<lparr>result := result st @ [acc_indices b0 @ [x]],
                 accumulators := (accumulators st)(key \<mapsto> BucketAccumulator),
                 bucket_size_limit_iterators :=
                   (bucket_size_limit_iterators st)
                     (key \<mapsto> (if it + 1 \<noteq> length limits then it + 1 else it))\<rparr>
         else st\<lparr>accumulators := (accumulators st)(key \<mapsto>
                   b0\<lparr>acc_indices := acc_indices b0 @ [x], acc_size := sz\<rparr>),
                 bucket_size_limit_iterators := (bucket_size_limit_iterators st)(key \<mapsto> it)\<rparr>)"
    using st1(1) step by simp
  have inv1: "\<forall>k. running_size (group_of st1 k) + rest_bytes < 2 ^ 64"
  proof
    fix k
    have "running_size (group_of st1 k) \<le> (if k = key then sz else running_size (group_of st k))"
      unfolding st1_cases by (simp add: BucketAccumulator_def g sz_def)
    moreover have "(if k = key then sz else running_size (group_of st k)) + rest_bytes < 2 ^ 64"
      using szb bound [of k] by simp
    ultimately show "running_size (group_of st1 k) + rest_bytes < 2 ^ 64" by simp
  qed
  from Cons.IH [OF rest st1(2) inv1 [unfolded rest_bytes_def]] obtain st' bs where
    run: "for_each xs (assign_tensor tensors limits flags tidx) st1 = Inr st'"
    and ref: "reference_emit limits (map (item_at tensors flags tidx) xs) (group_of st1)
        = (bs, group_of st')"
    and res: "result st' = result st1 @ bs" by blast
  have all: "for_each (i # xs) (assign_tensor tensors limits flags tidx) st = Inr st'"
    using st1 run by simp
  have item: "item_at tensors flags tidx i = (flags \<noteq> [] \<and> flags ! x, x, tensors ! i)"
    by (simp add: item_at_def x_def sparse_flagged_def)
  have "\<exists>b. reference_emit limits ((flags \<noteq> [] \<and> flags ! x, x, tensors ! i)
                # map (item_at tensors flags tidx) xs) (group_of st)
        = (b @ bs, group_of st') \<and> result st1 = result st @ b"
  proof (cases "flags \<noteq> [] \<and> flags ! x")
    case True
    then have s1: "st1 = st\<lparr>result := result st @ [[x]]\<rparr>"
      using st1_cases by simp
    from ref True have "reference_emit limits ((flags \<noteq> [] \<and> flags ! x, x, tensors ! i)
                # map (item_at tensors flags tidx) xs) (group_of st)
        = ([[x]] @ bs, group_of st')" by (simp add: s1)
    then show ?thesis by (auto simp: s1)
  next
    case False
    show ?thesis
    proof (cases "sz \<ge> limits ! it")
      case True
      have s1: "st1 = st\<lparr>result := result st @ [acc_indices b0 @ [x]],
                             accumulators := (accumulators st)(key \<mapsto> BucketAccumulator),
                             bucket_size_limit_iterators :=
                               (bucket_size_limit_iterators st)
                                 (key \<mapsto> (if it + 1 \<noteq> length limits then it + 1 else it))\<rparr>"
        using st1_cases False True by simp
      have bp: "min (it + 1) (length limits - 1) = (if it + 1 \<noteq> length limits then it + 1 else it)"
        using itlt by auto
      have ref': "reference_emit limits (map (item_at tensors flags tidx) xs)
           ((group_of st)(key := \<lparr>accumulator = [], running_size = 0,
                budget_pointer = min (budget_pointer (group_of st key) + 1) (length limits - 1)\<rparr>))
         = (bs, group_of st')"
        using ref unfolding g bp by (simp add: s1 BucketAccumulator_def)
      have "reference_emit limits ((flags \<noteq> [] \<and> flags ! x, x, tensors ! i)
                # map (item_at tensors flags tidx) xs) (group_of st)
        = ([acc_indices b0 @ [x]] @ bs, group_of st')"
        unfolding reference_emit.simps Let_def key_def [symmetric] ref'
        using False True by (auto simp: g sz_def)
      then show ?thesis by (auto simp: s1)
    next
      case keep: False
      have s1: "st1 = st\<lparr>accumulators := (accumulators st)(key \<mapsto>
               b0\<lparr>acc_indices := acc_indices b0 @ [x], acc_size := sz\<rparr>),
             bucket_size_limit_iterators := (bucket_size_limit_iterators st)(key \<mapsto> it)\<rparr>"
        using st1_cases False keep by simp
      have gk: "group_of st key = \<lparr>accumulator = acc_indices b0, running_size = acc_size b0,
             budget_pointer = it\<rparr>"
        using g by (cases "group_of st key") simp
      have ref': "reference_emit limits (map (item_at tensors flags tidx) xs)
           ((group_of st)(key := (group_of st key)\<lparr>accumulator := accumulator (group_of st key) @ [x],
                running_size := running_size (group_of st key) + numel (tensors ! i) * element_size (tensors ! i)\<rparr>))
         = (bs, group_of st')"
        using ref by (simp add: s1 gk sz_def)
      have "reference_emit limits ((flags \<noteq> [] \<and> flags ! x, x, tensors ! i)
                # map (item_at tensors flags tidx) xs) (group_of st)
        = ([] @ bs, group_of st')"
        unfolding reference_emit.simps Let_def key_def [symmetric] ref'
        using False keep by (auto simp: g sz_def)
      then show ?thesis by (auto simp: s1)
    qed
  qed
  then obtain b where "reference_emit limits (map (item_at tensors flags tidx) (i # xs)) (group_of st)
        = (b @ bs, group_of st')" "result st1 = result st @ b"
    by (auto simp: item)
  with all res show ?case by auto
qed

lemma assignment_is_reference:
  assumes wf: "assignment_defined visit tensors limits flags tidx"
    and small: "sum_list (map bytes_of tensors) < 2 ^ 64"
  shows "compute_bucket_assignment_by_size visit tensors limits flags tidx
       = Inr (reference_buckets visit limits (tidx = [])
                (map (item_at tensors flags tidx) [0..<length tensors]))"
proof -
  let ?init = "\<lparr>result = [], bucket_size_limit_iterators = Map.empty, accumulators = Map.empty\<rparr>"
  from wf have lim: "limits \<noteq> []" and fl: "flags = [] \<or> length tensors = length flags"
    and ix: "indices_ok (length tensors) flags tidx" and ne: "tensors \<noteq> []"
    and dense: "\<forall>i\<in>set [0..<length tensors]. i < length tensors \<and> \<not> is_sparse (tensors ! i)"
    by (auto simp: assignment_defined_def)
  have io: "iterators_ok limits ?init" by (simp add: iterators_ok_def)
  have init: "group_of ?init = (\<lambda>key. empty_group)"
    by (simp add: group_of_def empty_group_def fun_eq_iff)
  have "map (\<lambda>i. bytes_of (tensors ! i)) [0..<length tensors] = map bytes_of tensors"
    by (intro nth_equalityI) simp_all
  with small have bound: "\<forall>key. running_size (group_of ?init key)
      + sum_list (map (\<lambda>i. bytes_of (tensors ! i)) [0..<length tensors]) < 2 ^ 64"
    by (simp add: init empty_group_def)
  from for_each_refines_reference [OF lim fl ix dense io bound] obtain st bs where
    run: "for_each [0..<length tensors] (assign_tensor tensors limits flags tidx) ?init = Inr st"
    and ref: "reference_emit limits (map (item_at tensors flags tidx) [0..<length tensors])
        (group_of ?init) = (bs, group_of st)"
    and res: "result st = bs" by auto
  have left: "filter (\<lambda>b. b \<noteq> []) (map (\<lambda>key. accumulator (group_of st key)) visit)
      = remaining_buckets visit st"
    by (simp add: remaining_buckets_filter group_of_def pending_indices_def [abs_def])
  have "reference_buckets visit limits (tidx = [])
          (map (item_at tensors flags tidx) [0..<length tensors])
      = (if tidx = [] then sort_key min_list (result st @ remaining_buckets visit st)
         else result st @ remaining_buckets visit st)"
    unfolding reference_buckets_def Let_def
    using ref by (simp add: init left res)
  moreover have "compute_bucket_assignment_by_size visit tensors limits flags tidx
      = Inr (if tidx = [] then sort_key min_list (result st @ remaining_buckets visit st)
         else result st @ remaining_buckets visit st)"
    using run fl ne by (auto simp: compute_bucket_assignment_by_size_def Let_def)
  ultimately show ?thesis by simp
qed

lemma reference_items:
  assumes ix: "indices_ok (length tensors) flags tidx"
    and len: "length fs = length tensors"
    and fs: "\<forall>i<length tensors. fs ! i = sparse_flagged flags (recorded_index tidx i)"
  shows "zip fs (zip (if tidx = [] then [0..<length tensors] else map size_t_of_int64 tidx) tensors)
       = map (item_at tensors flags tidx) [0..<length tensors]"
proof (cases "tidx = []")
  case True
  with len fs show ?thesis
    by (auto simp: item_at_def recorded_index_def intro!: nth_equalityI)
next
  case False
  with ix have "length tidx = length tensors" by (simp add: indices_ok_def)
  with False len fs show ?thesis
    by (auto simp: item_at_def recorded_index_def intro!: nth_equalityI)
qed



text \<open>
  Claim C5, as stated, holds of no input on which the source differs by design from the
  reference algorithm.  The size of an accumulator is a \<^verbatim>\<open>size_t\<close>: with a tensor of
  \<open>2 ^ 64\<close> bytes followed by one of 8 bytes and the budget 16 the source sees 0 and then 8
  bytes and emits one bucket at the end, the reference emits the first tensor at once.
  With explicit indices the source reads the flag of a tensor at its recorded index: with
  the flags \<open>[True, False]\<close> and the indices \<open>[1, 0]\<close> it emits the second tensor as the
  singleton, the reference the first.  And the source rejects a tensor of sparse layout,
  which the reference algorithm buckets.
\<close>

theorem reference_claim_counterexample:
  "compute_bucket_assignment_by_size [BucketKey kDouble (Device kCPU 0)] example_huge [16] [] []
     = Inr [[0, 1]] \<and>
   reference_assignment [BucketKey kDouble (Device kCPU 0)] example_huge [16] [] []
     = [[0], [1]] \<and>
   compute_bucket_assignment_by_size [BucketKey kFloat (Device kCPU 0)] example_pair [1024]
     [True, False] [1, 0] = Inr [[0], [1]] \<and>
   reference_assignment [BucketKey kFloat (Device kCPU 0)] example_pair [1024]
     [True, False] [1, 0] = [[1], [0]] \<and>
   compute_bucket_assignment_by_size [BucketKey kFloat (Device kCPU 0)]
     [sparse_param 0 kFloat 4] [16] [] [] = Inl NoSupportForSparseTensors \<and>
   reference_assignment [BucketKey kFloat (Device kCPU 0)] [sparse_param 0 kFloat 4] [16] [] []
     = [[0]]"
proof -
  have a: "compute_bucket_assignment_by_size [BucketKey kDouble (Device kCPU 0)] example_huge
      [16] [] [] = Inr [[0, 1]]"
    by (simp add: compute_bucket_assignment_by_size_def assign_tensor_def tensor_index_at_def
        example_huge_def dense_param_def numel_def element_size_def is_sparse_def
        BucketAccumulator_def size_t_of_nat_def remaining_buckets_def Let_def upt_rec)
  have b: "reference_assignment [BucketKey kDouble (Device kCPU 0)] example_huge [16] [] []
      = [[0], [1]]"
    by (simp add: reference_assignment_def reference_buckets_def example_huge_def dense_param_def
        numel_def element_size_def empty_group_def Let_def upt_rec)
  have c: "compute_bucket_assignment_by_size [BucketKey kFloat (Device kCPU 0)] example_pair [1024]
     [True, False] [1, 0] = Inr [[0], [1]] \<and>
   reference_assignment [BucketKey kFloat (Device kCPU 0)] example_pair [1024]
     [True, False] [1, 0] = [[1], [0]] \<and>
   compute_bucket_assignment_by_size [BucketKey kFloat (Device kCPU 0)]
     [sparse_param 0 kFloat 4] [16] [] [] = Inl NoSupportForSparseTensors \<and>
   reference_assignment [BucketKey kFloat (Device kCPU 0)] [sparse_param 0 kFloat 4] [16] [] []
     = [[0]]"
    by code_simp
  from a b c show ?thesis by (intro conjI) simp_all
qed

text \<open>
  Claim C5, amended.  On every input on which the source runs to the end (a non-empty
  list of tensors of dense layout, a budget, a flag vector that is empty or has one flag
  per tensor, explicit indices that are absent or come one per tensor and stay inside the
  flag vector), on which the bytes of all tensors together stay below \<open>2 ^ 64\<close>, and on
  which the flag at the recorded index of every tensor is the flag at its position,
  \<^verbatim>\<open>compute_bucket_assignment_by_size\<close> returns what the reference algorithm of the
  specification computes: grouping by \<open>(dtype, device)\<close>, emission when the running size
  reaches the current budget, the clamped budget pointer, the emission of the non-empty
  accumulators at the end, and the sort by minimum index exactly when no explicit indices
  were supplied.
\<close>

theorem assignment_refines_reference:
  assumes wf: "assignment_defined visit tensors limits flags tidx"
    and small: "sum_list (map bytes_of tensors) < 2 ^ 64"
    and agree: "tidx = [] \<or> flags = [] \<or>
                (\<forall>i<length tensors. flags ! size_t_of_int64 (tidx ! i) = flags ! i)"
  shows "compute_bucket_assignment_by_size visit tensors limits flags tidx
       = Inr (reference_assignment visit tensors limits flags tidx)"
proof -
  from wf have ix: "indices_ok (length tensors) flags tidx"
    and fl: "flags = [] \<or> length tensors = length flags"
    by (simp_all add: assignment_defined_def)
  let ?fs = "if flags = [] then replicate (length tensors) False else flags"
  from fl have len: "length ?fs = length tensors" by auto
  have fs: "\<forall>i<length tensors. ?fs ! i = sparse_flagged flags (recorded_index tidx i)"
    using agree by (auto simp: sparse_flagged_def recorded_index_def)
  from reference_items [OF ix len fs] assignment_is_reference [OF wf small]
  show ?thesis by (simp add: reference_assignment_def)
qed

theorem assignment_refines_reference_witness:
  "assignment_defined example_visit example_params [16, 32] [] [] \<and>
   sum_list (map bytes_of example_params) = 52 \<and>
   reference_assignment example_visit example_params [16, 32] [] [] = [[0], [1, 4], [2, 3]] \<and>
   compute_bucket_assignment_by_size example_visit example_params [16, 32] [] []
     = Inr [[0], [1, 4], [2, 3]]"
proof -
  have wf: "assignment_defined example_visit example_params [16, 32] [] []"
    by code_simp
  have bytes: "sum_list (map bytes_of example_params) = 52" by code_simp
  then have small: "sum_list (map bytes_of example_params) < 2 ^ 64" by simp
  have ref: "reference_assignment example_visit example_params [16, 32] [] []
      = [[0], [1, 4], [2, 3]]"
    by code_simp
  from assignment_refines_reference [OF wf small] ref wf bytes show ?thesis by simp
qed

section \<open>Properties of the readiness state machine\<close>

lemma locate_require_finalize [simp]:
  "locate index (s\<lparr>require_finalize := v\<rparr>) = locate index s"
  by (simp add: locate_def Let_def)

text \<open>
  Claim C1, as stated, lets a second mark pass when \<^verbatim>\<open>has_marked_unused_parameters_\<close> is
  true and the variable is one of the parameters marked in advance as unused.  In the
  example iteration \<open>p1\<close> is such a parameter, and marking it again fails:
\<close>

theorem double_mark_claim_counterexample:
  "has_marked_unused_parameters example_unused_iteration \<and>
   \<lparr>replica_index = 0, variable_index = 1\<rparr> \<in> set (unused_parameters example_unused_iteration) \<and>
   located_pending \<lparr>replica_index = 0, variable_index = 1\<rparr> example_unused_iteration = Some 0 \<and>
   error_of (mark_variable_ready ieee_arithmetic \<lparr>replica_index = 0, variable_index = 1\<rparr> example_unused_iteration)
     = Some MarkedReadyTwice"
  by code_simp

text \<open>
  Claim C1, amended.  Whenever \<^verbatim>\<open>mark_variable_ready(index)\<close> finds the pending counter of
  the located bucket replica at zero, the call fails, whatever
  \<^verbatim>\<open>has_marked_unused_parameters_\<close> is: the flag only selects which of the two checks
  raises.  The state in which it fails differs from the initial one in
  \<^verbatim>\<open>require_finalize_\<close> alone.
\<close>

theorem double_mark_always_fails:
  assumes "replica_index index < length (replicas s)"
    and "variable_index index < length (variable_locators s)"
    and "locate index s = Some (locator, bucket, replica)"
    and "pending replica = 0"
  shows "mark_variable_ready ar index s =
     Inl (if has_marked_unused_parameters s then MarkedReadyTwice
          else MarkedReadyTwiceUnusedHint, s\<lparr>require_finalize := True\<rparr>)"
  using assms by (simp add: mark_variable_ready_def)

theorem double_mark_always_fails_witness:
  "replica_index \<lparr>replica_index = 0, variable_index = 1\<rparr> < length (replicas example_unused_iteration) \<and>
   variable_index \<lparr>replica_index = 0, variable_index = 1\<rparr>
     < length (variable_locators example_unused_iteration) \<and>
   located_pending \<lparr>replica_index = 0, variable_index = 1\<rparr> example_unused_iteration = Some 0 \<and>
   error_of (mark_variable_ready ieee_arithmetic \<lparr>replica_index = 0, variable_index = 1\<rparr> example_unused_iteration)
     = Some MarkedReadyTwice"
proof -
  let ?i = "\<lparr>replica_index = 0, variable_index = 1\<rparr>"
  have r: "replica_index ?i < length (replicas example_unused_iteration)" by code_simp
  have v: "variable_index ?i < length (variable_locators example_unused_iteration)" by code_simp
  have p: "located_pending ?i example_unused_iteration = Some 0" by code_simp
  have m: "has_marked_unused_parameters example_unused_iteration" by code_simp
  from p obtain locator bucket replica where
    l: "locate ?i example_unused_iteration = Some (locator, bucket, replica)" and "pending replica = 0"
    by (cases "locate ?i example_unused_iteration") (auto simp: located_pending_def)
  from double_mark_always_fails [OF r v l this(2)] m
  have "error_of (mark_variable_ready ieee_arithmetic ?i example_unused_iteration) = Some MarkedReadyTwice"
    by (simp add: error_of_def)
  with r v p show ?thesis by blast
qed

lemma buckets_reset_accounting: "buckets (reset_accounting s) = map reset_pending (buckets s)"
  by (simp add: reset_accounting_def)

text \<open>
  Claim C8.  \<^verbatim>\<open>prepare_for_backward\<close> fails, in an unchanged state, when
  \<^verbatim>\<open>require_finalize_\<close> is still true.  Otherwise it succeeds, having set
  \<^verbatim>\<open>expect_autograd_hooks_\<close>, reset \<^verbatim>\<open>next_bucket_\<close> to zero, set the pending counter of
  every bucket replica to its number of variables and that of every bucket to its number
  of replicas, and cleared \<^verbatim>\<open>has_marked_unused_parameters_\<close> and \<^verbatim>\<open>unused_parameters_\<close>;
  after the clearing, \<^verbatim>\<open>unused_parameters_\<close> receives the accumulators that the walk over
  the graph did not see, when unused parameters are looked for, and stays empty
  otherwise.
\<close>

theorem prepare_for_backward_resets:
  "(require_finalize s \<longrightarrow>
      prepare_for_backward graph outputs s = Inl (PriorReductionUnfinished, s)) \<and>
   (\<not> require_finalize s \<longrightarrow>
      (\<exists>s'. prepare_for_backward graph outputs s = Inr s' \<and>
         s' = discover_unused graph outputs (reset_accounting s) \<and>
         unused_parameters (reset_accounting s) = [] \<and>
         expect_autograd_hooks s' \<and>
         next_bucket s' = 0 \<and>
         length (buckets s') = length (buckets s) \<and>
         (\<forall>b<length (buckets s).
            length (bucket_replicas (buckets s' ! b)) = length (bucket_replicas (buckets s ! b)) \<and>
            bucket_pending (buckets s' ! b) = length (bucket_replicas (buckets s ! b)) \<and>
            (\<forall>r<length (bucket_replicas (buckets s ! b)).
               variables (bucket_replicas (buckets s' ! b) ! r)
                 = variables (bucket_replicas (buckets s ! b) ! r) \<and>
               pending (bucket_replicas (buckets s' ! b) ! r)
                 = length (variables (bucket_replicas (buckets s ! b) ! r)))) \<and>
         \<not> has_marked_unused_parameters s' \<and>
         unused_parameters s' =
           (if find_unused_parameters s then unseen_accumulators graph outputs (func s) else [])))"
  by (auto simp: prepare_for_backward_def discover_unused_def reset_accounting_def reset_pending_def)

theorem prepare_for_backward_resets_witness:
  "\<not> require_finalize example_built \<and>
   require_finalize example_unused_iteration \<and>
   error_of (prepare_for_backward [] [] example_unused_iteration) = Some PriorReductionUnfinished \<and>
   error_of (prepare_for_backward [(1, [Some 100])] [Some 1] example_built) = None \<and>
   map bucket_pending (buckets (state_of
      (prepare_for_backward [(1, [Some 100])] [Some 1] example_built))) = [1, 1] \<and>
   unused_parameters (state_of (prepare_for_backward [(1, [Some 100])] [Some 1]
      (example_built\<lparr>find_unused_parameters := True\<rparr>))) = [\<lparr>replica_index = 0, variable_index = 1\<rparr>]"
proof -
  have a: "\<not> require_finalize example_built" by code_simp
  have b: "require_finalize example_unused_iteration" by code_simp
  from prepare_for_backward_resets [of example_unused_iteration "[]" "[]"] b
  have c: "error_of (prepare_for_backward [] [] example_unused_iteration) = Some PriorReductionUnfinished"
    by (simp add: error_of_def)
  from prepare_for_backward_resets [of example_built "[(1, [Some 100])]" "[Some 1]"] a
  have d: "error_of (prepare_for_backward [(1, [Some 100])] [Some 1] example_built) = None"
    by (auto simp: error_of_def)
  have e: "map bucket_pending (buckets (state_of
      (prepare_for_backward [(1, [Some 100])] [Some 1] example_built))) = [1, 1]" by code_simp
  have f: "unused_parameters (state_of (prepare_for_backward [(1, [Some 100])] [Some 1]
      (example_built\<lparr>find_unused_parameters := True\<rparr>))) = [\<lparr>replica_index = 0, variable_index = 1\<rparr>]"
    by code_simp
  from a b c d e f show ?thesis by blast
qed

section \<open>Properties of the gradient copy\<close>

lemma length_offsets_from:
  "length (offsets_from base ns sts) = prod_list ns"
proof (induction base ns sts rule: offsets_from.induct)
  case (1 base sts)
  then show ?case by simp
next
  case (2 base n ns)
  show ?case
  proof (cases "n = 0")
    case True
    then show ?thesis by simp
  next
    case False
    with 2 [of 0] have "length (offsets_from base ns []) = prod_list ns" by simp
    then show ?thesis by (simp add: length_concat comp_def sum_list_triv)
  qed
next
  case (3 base n ns st sts)
  have "map (\<lambda>k. length (offsets_from (base + k * st) ns sts)) [0..<n]
      = map (\<lambda>k. prod_list ns) [0..<n]"
  proof (rule map_cong [OF refl])
    fix k assume "k \<in> set [0..<n]"
    then show "length (offsets_from (base + k * st) ns sts) = prod_list ns" by (rule 3)
  qed
  then have "length (concat (map (\<lambda>k. offsets_from (base + k * st) ns sts) [0..<n]))
      = sum_list (map (\<lambda>k. prod_list ns) [0..<n])"
    by (simp only: length_concat map_map comp_def)
  also have "\<dots> = n * prod_list ns" by (simp add: sum_list_triv)
  finally show ?case by simp
qed

lemma length_element_offsets:
  "length (element_offsets t) = numel t"
  by (simp add: element_offsets_def numel_def length_offsets_from)

lemma write_at_other_storage:
  "sid' \<noteq> sid \<Longrightarrow> write_at sid pvs mem sid' = mem sid'"
  by (induction pvs arbitrary: mem) auto

lemma write_at_other_position:
  "p \<notin> fst ` set pvs \<Longrightarrow> write_at sid pvs mem sid p = mem sid p"
  by (induction pvs arbitrary: mem) auto

lemma write_at_read:
  "distinct (map fst pvs) \<Longrightarrow> map (write_at sid pvs mem sid) (map fst pvs) = map snd pvs"
proof (induction pvs arbitrary: mem)
  case Nil
  then show ?case by simp
next
  case (Cons pv pvs)
  obtain p v where pv: "pv = (p, v)" by (cases pv)
  from Cons.prems pv have notin: "p \<notin> fst ` set pvs" and d: "distinct (map fst pvs)" by auto
  have "write_at sid (pv # pvs) mem sid p = v"
    using write_at_other_position [OF notin] by (simp add: pv)
  with Cons.IH [OF d] show ?case by (simp add: pv)
qed

lemma read_after_write:
  assumes "distinct (element_offsets t)" and "length vs = length (element_offsets t)"
  shows "read_tensor (write_tensor t vs mem) t = vs"
proof -
  let ?pvs = "zip (element_offsets t) vs"
  from assms have f: "map fst ?pvs = element_offsets t" and s: "map snd ?pvs = vs" by simp_all
  from assms(1) f have "distinct (map fst ?pvs)" by simp
  from write_at_read [OF this, of "storage t" mem] show ?thesis
    by (simp only: f s read_tensor_def write_tensor_def)
qed

lemma read_other_storage:
  "storage t' \<noteq> storage t \<Longrightarrow> read_tensor (write_tensor t vs mem) t' = read_tensor mem t'"
  by (simp add: read_tensor_def write_tensor_def write_at_other_storage)

lemma length_read_tensor [simp]: "length (read_tensor mem t) = length (element_offsets t)"
  by (simp add: read_tensor_def)

lemma write_tensor_frame:
  "sid \<noteq> storage t \<Longrightarrow> write_tensor t vs mem sid = mem sid"
  by (simp add: write_tensor_def write_at_other_storage)

text \<open>
  Claim C4, as stated, promises for every defined gradient that does not alias the
  bucket view that it is written to the view, divided by the world size when no hook is
  registered.  First, the source checks the type, the device and the number of elements
  of such a gradient and fails when one differs: in \<open>example_mistyped\<close> the gradient
  holds doubles, the call fails with the type error, and neither the view nor the
  gradient changes.  Second, the source does not divide: it multiplies by
  \<^verbatim>\<open>double(1.) / process_group_->getSize()\<close>.  In \<open>example_thirds\<close>, with correctly rounded
  doubles, the gradient \<open>5\<close> in a group of three processes leaves
  \<open>7505999378950826 / 2 ^ 52\<close> in the view, and the quotient of \<open>5\<close> by \<open>3\<close> is
  \<open>7505999378950827 / 2 ^ 52\<close>.
\<close>

theorem dense_claim_counterexample:
  "grads example_mistyped 0 = Some (dense_param 10 kDouble 4) \<and>
   \<not> is_alias_of (dense_param 10 kDouble 4) example_view \<and>
   bucket_views (bucket_replicas (buckets example_mistyped ! 0) ! 0) ! 0 = example_view \<and>
   error_of (mark_variable_ready_dense ieee_arithmetic
     \<lparr>replica_index = 0, variable_index = 0\<rparr> example_mistyped) = Some GradTypeMismatch \<and>
   grads (state_of (mark_variable_ready_dense ieee_arithmetic
     \<lparr>replica_index = 0, variable_index = 0\<rparr> example_mistyped)) 0
     = Some (dense_param 10 kDouble 4) \<and>
   read_tensor (memory example_mistyped) example_view = [1, 2, 3, 4] \<and>
   read_tensor (memory (state_of (mark_variable_ready_dense ieee_arithmetic
     \<lparr>replica_index = 0, variable_index = 0\<rparr> example_mistyped))) example_view = [1, 2, 3, 4] \<and>
   grads example_thirds 0 = Some (dense_param 10 kDouble 1) \<and>
   \<not> is_alias_of (dense_param 10 kDouble 1) example_thirds_view \<and>
   bucket_views (bucket_replicas (buckets example_thirds ! 0) ! 0) ! 0 = example_thirds_view \<and>
   comm_hook example_thirds = None \<and> world_size example_thirds = 3 \<and>
   read_tensor (memory example_thirds) (dense_param 10 kDouble 1) = [5] \<and>
   error_of (mark_variable_ready_dense ieee_arithmetic
     \<lparr>replica_index = 0, variable_index = 0\<rparr> example_thirds) = None \<and>
   read_tensor (memory (state_of (mark_variable_ready_dense ieee_arithmetic
     \<lparr>replica_index = 0, variable_index = 0\<rparr> example_thirds))) example_thirds_view
     = [7505999378950826 / 4503599627370496] \<and>
   fdiv ieee_arithmetic kDouble 5 3 = 7505999378950827 / 4503599627370496"
  by code_simp

text \<open>
  Claim C4, amended.  Let \<open>view\<close> be the bucket view of the variable that \<open>index\<close> locates,
  with pairwise distinct element positions.  For a defined gradient that does not alias
  the view, \<^verbatim>\<open>mark_variable_ready_dense\<close> fails, in an unchanged state, when the gradient
  differs from the view in type, in device or in the number of elements; otherwise it
  leaves in the view the product of each element of the gradient with the scalar
  \<^verbatim>\<open>double(1.) / world_size\<close> when no communication hook is registered and the elements of
  the gradient themselves when one is, and in both cases it redirects the gradient to
  the view.  For a gradient that aliases the view, the state is unchanged when a hook is
  registered, and each element of the view is divided in place by the world size when
  none is.  For an undefined gradient the view is zeroed and the gradient stays
  undefined.  Nothing else of the state changes, and no other storage is written.  The
  statement holds for every arithmetic of the element types.
\<close>

theorem mark_variable_ready_dense_effect:
  assumes loc: "locate index s = Some (locator, bucket, replica)"
    and i: "i = intra_bucket_index locator"
    and range: "i < length (variables replica)" "i < length (offsets replica)"
      "i < length (lengths replica)" "i < length (bucket_views replica)"
    and view: "view = bucket_views replica ! i"
    and slot: "slot = grad_slot (variables replica ! i)"
    and dist: "distinct (element_offsets view)"
  shows "(\<forall>grad. grads s slot = Some grad \<and> \<not> is_alias_of grad view \<longrightarrow>
            (\<not> type_equal grad view \<longrightarrow>
               mark_variable_ready_dense ar index s = Inl (GradTypeMismatch, s)) \<and>
            (type_equal grad view \<and> device grad \<noteq> device view \<longrightarrow>
               mark_variable_ready_dense ar index s = Inl (AssertGradDevice, s)) \<and>
            (type_equal grad view \<and> device grad = device view \<and> numel grad \<noteq> numel view \<longrightarrow>
               mark_variable_ready_dense ar index s = Inl (AssertGradNumel, s)) \<and>
            (type_equal grad view \<and> device grad = device view \<and> numel grad = numel view \<longrightarrow>
               (\<exists>mem. mark_variable_ready_dense ar index s
                         = Inr (s\<lparr>memory := mem, grads := (grads s)(slot \<mapsto> view)\<rparr>) \<and>
                      read_tensor mem view =
                        (if comm_hook s = None
                         then map (\<lambda>x. fmul ar (dtype view) x
                                          (fdiv ar kDouble 1 (real (world_size s))))
                                  (read_tensor (memory s) grad)
                         else read_tensor (memory s) grad) \<and>
                      (\<forall>sid. sid \<noteq> storage view \<longrightarrow> mem sid = memory s sid)))) \<and>
         (\<forall>grad. grads s slot = Some grad \<and> is_alias_of grad view \<longrightarrow>
            (comm_hook s \<noteq> None \<longrightarrow> mark_variable_ready_dense ar index s = Inr s) \<and>
            (comm_hook s = None \<longrightarrow>
               (\<exists>mem. mark_variable_ready_dense ar index s = Inr (s\<lparr>memory := mem\<rparr>) \<and>
                      read_tensor mem view =
                        map (\<lambda>x. fdiv ar (dtype view) x (real (world_size s)))
                            (read_tensor (memory s) view) \<and>
                      (\<forall>sid. sid \<noteq> storage view \<longrightarrow> mem sid = memory s sid)))) \<and>
         (grads s slot = None \<longrightarrow>
            (\<exists>mem. mark_variable_ready_dense ar index s = Inr (s\<lparr>memory := mem\<rparr>) \<and>
                   read_tensor mem view = replicate (numel view) 0 \<and>
                   (\<forall>sid. sid \<noteq> storage view \<longrightarrow> mem sid = memory s sid)))"
proof -
  note defs = mark_variable_ready_dense_def Let_def
  have lv: "length (element_offsets view) = numel view"
    by (rule length_element_offsets)
  have step: "\<exists>mem. write_tensor view vs (memory s) = mem \<and> read_tensor mem view = vs \<and>
                (\<forall>sid. sid \<noteq> storage view \<longrightarrow> mem sid = memory s sid)"
    if "length vs = numel view" for vs
    using read_after_write [OF dist, of vs "memory s"] that lv
    by (simp add: write_tensor_frame)
  have fresh: "(\<not> type_equal grad view \<longrightarrow>
               mark_variable_ready_dense ar index s = Inl (GradTypeMismatch, s)) \<and>
            (type_equal grad view \<and> device grad \<noteq> device view \<longrightarrow>
               mark_variable_ready_dense ar index s = Inl (AssertGradDevice, s)) \<and>
            (type_equal grad view \<and> device grad = device view \<and> numel grad \<noteq> numel view \<longrightarrow>
               mark_variable_ready_dense ar index s = Inl (AssertGradNumel, s)) \<and>
            (type_equal grad view \<and> device grad = device view \<and> numel grad = numel view \<longrightarrow>
               (\<exists>mem. mark_variable_ready_dense ar index s
                         = Inr (s\<lparr>memory := mem, grads := (grads s)(slot \<mapsto> view)\<rparr>) \<and>
                      read_tensor mem view =
                        (if comm_hook s = None
                         then map (\<lambda>x. fmul ar (dtype view) x
                                          (fdiv ar kDouble 1 (real (world_size s))))
                                  (read_tensor (memory s) grad)
                         else read_tensor (memory s) grad) \<and>
                      (\<forall>sid. sid \<noteq> storage view \<longrightarrow> mem sid = memory s sid)))"
    if g: "grads s slot = Some grad" and na: "\<not> is_alias_of grad view" for grad
  proof (intro conjI impI)
    assume "\<not> type_equal grad view"
    with loc range g na show "mark_variable_ready_dense ar index s = Inl (GradTypeMismatch, s)"
      by (simp add: defs flip: i view slot)
  next
    assume "type_equal grad view \<and> device grad \<noteq> device view"
    with loc range g na show "mark_variable_ready_dense ar index s = Inl (AssertGradDevice, s)"
      by (simp add: defs flip: i view slot)
  next
    assume "type_equal grad view \<and> device grad = device view \<and> numel grad \<noteq> numel view"
    with loc range g na show "mark_variable_ready_dense ar index s = Inl (AssertGradNumel, s)"
      by (simp add: defs flip: i view slot)
  next
    assume a: "type_equal grad view \<and> device grad = device view \<and> numel grad = numel view"
    then have lg: "length (read_tensor (memory s) grad) = numel view"
      by (simp add: length_element_offsets)
    let ?vs = "if comm_hook s = None
               then map (\<lambda>x. fmul ar (dtype view) x (fdiv ar kDouble 1 (real (world_size s))))
                        (read_tensor (memory s) grad)
               else read_tensor (memory s) grad"
    from lg have "length ?vs = numel view" by simp
    from step [OF this] obtain mem where mem: "write_tensor view ?vs (memory s) = mem"
      "read_tensor mem view = ?vs" "\<forall>sid. sid \<noteq> storage view \<longrightarrow> mem sid = memory s sid"
      by blast
    have "mark_variable_ready_dense ar index s
        = Inr (s\<lparr>memory := write_tensor view ?vs (memory s), grads := (grads s)(slot \<mapsto> view)\<rparr>)"
      using loc range g na a
      by (simp add: defs mul_out_def copy_tensor_def flip: i view slot)
    with mem show "\<exists>mem. mark_variable_ready_dense ar index s
                         = Inr (s\<lparr>memory := mem, grads := (grads s)(slot \<mapsto> view)\<rparr>) \<and>
                      read_tensor mem view = ?vs \<and>
                      (\<forall>sid. sid \<noteq> storage view \<longrightarrow> mem sid = memory s sid)"
      by (intro exI [of _ mem]) simp
  qed
  have aliased: "(comm_hook s \<noteq> None \<longrightarrow> mark_variable_ready_dense ar index s = Inr s) \<and>
            (comm_hook s = None \<longrightarrow>
               (\<exists>mem. mark_variable_ready_dense ar index s = Inr (s\<lparr>memory := mem\<rparr>) \<and>
                      read_tensor mem view =
                        map (\<lambda>x. fdiv ar (dtype view) x (real (world_size s)))
                            (read_tensor (memory s) view) \<and>
                      (\<forall>sid. sid \<noteq> storage view \<longrightarrow> mem sid = memory s sid)))"
    if g: "grads s slot = Some grad" and al: "is_alias_of grad view" for grad
  proof (intro conjI impI)
    assume "comm_hook s \<noteq> None"
    with loc range g al show "mark_variable_ready_dense ar index s = Inr s"
      by (simp add: defs flip: i view slot)
  next
    assume h: "comm_hook s = None"
    let ?vs = "map (\<lambda>x. fdiv ar (dtype view) x (real (world_size s))) (read_tensor (memory s) view)"
    have "length ?vs = numel view" by (simp add: lv)
    from step [OF this] obtain mem where mem: "write_tensor view ?vs (memory s) = mem"
      "read_tensor mem view = ?vs" "\<forall>sid. sid \<noteq> storage view \<longrightarrow> mem sid = memory s sid"
      by blast
    have "mark_variable_ready_dense ar index s = Inr (s\<lparr>memory := write_tensor view ?vs (memory s)\<rparr>)"
      using loc range g al h
      by (simp add: defs div_tensor_def flip: i view slot)
    with mem show "\<exists>mem. mark_variable_ready_dense ar index s = Inr (s\<lparr>memory := mem\<rparr>) \<and>
                      read_tensor mem view = ?vs \<and>
                      (\<forall>sid. sid \<noteq> storage view \<longrightarrow> mem sid = memory s sid)"
      by (intro exI [of _ mem]) simp
  qed
  have undefined_grad: "\<exists>mem. mark_variable_ready_dense ar index s = Inr (s\<lparr>memory := mem\<rparr>) \<and>
                   read_tensor mem view = replicate (numel view) 0 \<and>
                   (\<forall>sid. sid \<noteq> storage view \<longrightarrow> mem sid = memory s sid)"
    if g: "grads s slot = None"
  proof -
    let ?vs = "map (\<lambda>x. 0 :: real) (read_tensor (memory s) view)"
    have vs: "?vs = replicate (numel view) 0" by (simp add: map_replicate_const lv)
    then have "length ?vs = numel view" by simp
    from step [OF this] obtain mem where mem: "write_tensor view ?vs (memory s) = mem"
      "read_tensor mem view = ?vs" "\<forall>sid. sid \<noteq> storage view \<longrightarrow> mem sid = memory s sid"
      by blast
    have "mark_variable_ready_dense ar index s = Inr (s\<lparr>memory := write_tensor view ?vs (memory s)\<rparr>)"
      using loc range g
      by (simp add: defs zero_tensor_def flip: i view slot)
    with mem vs show ?thesis
      by (intro exI [of _ mem]) simp
  qed
  show ?thesis
    apply (intro conjI)
      apply (intro allI impI, elim conjE, rule fresh, assumption+)
     apply (intro allI impI, elim conjE, rule aliased, assumption+)
    apply (rule impI, rule undefined_grad, assumption)
    done
qed

theorem mark_variable_ready_dense_effect_witness:
  "locate \<lparr>replica_index = 0, variable_index = 0\<rparr> example_thirds
     = Some (variable_locators example_thirds ! 0, buckets example_thirds ! 0,
             bucket_replicas (buckets example_thirds ! 0) ! 0) \<and>
   bucket_views (bucket_replicas (buckets example_thirds ! 0) ! 0) ! 0 = example_thirds_view \<and>
   distinct (element_offsets example_thirds_view) \<and>
   grads example_thirds 0 = Some (dense_param 10 kDouble 1) \<and>
   \<not> is_alias_of (dense_param 10 kDouble 1) example_thirds_view \<and>
   type_equal (dense_param 10 kDouble 1) example_thirds_view \<and>
   device (dense_param 10 kDouble 1) = device example_thirds_view \<and>
   numel (dense_param 10 kDouble 1) = numel example_thirds_view \<and>
   comm_hook example_thirds = None \<and> world_size example_thirds = 3 \<and>
   read_tensor (memory example_thirds) (dense_param 10 kDouble 1) = [5] \<and>
   (\<exists>mem. mark_variable_ready_dense ieee_arithmetic \<lparr>replica_index = 0, variable_index = 0\<rparr>
             example_thirds
           = Inr (example_thirds\<lparr>memory := mem,
                    grads := (grads example_thirds)(0 \<mapsto> example_thirds_view)\<rparr>) \<and>
          read_tensor mem example_thirds_view = [7505999378950826 / 4503599627370496])"
proof -
  let ?s = example_thirds
  let ?i = "\<lparr>replica_index = 0, variable_index = 0\<rparr>"
  let ?R = "bucket_replicas (buckets ?s ! 0) ! 0"
  let ?g = "dense_param 10 kDouble 1"
  let ?v = example_thirds_view
  have loc: "locate ?i ?s = Some (variable_locators ?s ! 0, buckets ?s ! 0, ?R)" by code_simp
  have i: "0 = intra_bucket_index (variable_locators ?s ! 0)" by code_simp
  have r: "0 < length (variables ?R)" "0 < length (offsets ?R)" "0 < length (lengths ?R)"
    "0 < length (bucket_views ?R)" by code_simp+
  have v: "?v = bucket_views ?R ! 0" by code_simp
  have sl: "0 = grad_slot (variables ?R ! 0)" by code_simp
  have d: "distinct (element_offsets ?v)" by code_simp
  have g: "grads ?s 0 = Some ?g" by code_simp
  have na: "\<not> is_alias_of ?g ?v" by code_simp
  have pre: "type_equal ?g ?v \<and> device ?g = device ?v \<and> numel ?g = numel ?v"
    by code_simp
  have h: "comm_hook ?s = None" by code_simp
  have W: "world_size ?s = 3" by code_simp
  have rd: "read_tensor (memory ?s) ?g = [5]" by code_simp
  have val: "map (\<lambda>x. fmul ieee_arithmetic (dtype ?v) x (fdiv ieee_arithmetic kDouble 1 (real 3))) [5]
      = [7505999378950826 / 4503599627370496]" by code_simp
  note t = mark_variable_ready_dense_effect [OF loc i r v sl d, of ieee_arithmetic]
  from t [THEN conjunct1, THEN spec, of ?g] g na
  have "type_equal ?g ?v \<and> device ?g = device ?v \<and> numel ?g = numel ?v \<longrightarrow>
      (\<exists>mem. mark_variable_ready_dense ieee_arithmetic ?i ?s
                = Inr (?s\<lparr>memory := mem, grads := (grads ?s)(0 \<mapsto> ?v)\<rparr>) \<and>
             read_tensor mem ?v =
               (if comm_hook ?s = None
                then map (\<lambda>x. fmul ieee_arithmetic (dtype ?v) x
                                 (fdiv ieee_arithmetic kDouble 1 (real (world_size ?s))))
                         (read_tensor (memory ?s) ?g)
                else read_tensor (memory ?s) ?g) \<and>
             (\<forall>sid. sid \<noteq> storage ?v \<longrightarrow> mem sid = memory ?s sid))"
    by simp
  with pre obtain mem where
    m: "mark_variable_ready_dense ieee_arithmetic ?i ?s
          = Inr (?s\<lparr>memory := mem, grads := (grads ?s)(0 \<mapsto> ?v)\<rparr>)"
    and rv: "read_tensor mem ?v =
               (if comm_hook ?s = None
                then map (\<lambda>x. fmul ieee_arithmetic (dtype ?v) x
                                 (fdiv ieee_arithmetic kDouble 1 (real (world_size ?s))))
                         (read_tensor (memory ?s) ?g)
                else read_tensor (memory ?s) ?g)"
    by blast
  from rv have "read_tensor mem ?v = [7505999378950826 / 4503599627370496]"
    unfolding h W rd using val by simp
  with m have "\<exists>mem. mark_variable_ready_dense ieee_arithmetic ?i ?s
           = Inr (?s\<lparr>memory := mem, grads := (grads ?s)(0 \<mapsto> ?v)\<rparr>) \<and>
          read_tensor mem ?v = [7505999378950826 / 4503599627370496]"
    by blast
  with loc v [symmetric] d g na pre h W rd show ?thesis by simp
qed

section \<open>Properties of the bucket index synchronisation\<close>

lemma int32_of_small: "int n < 2 ^ 31 \<Longrightarrow> int32_of_size_t n = int n"
  by (simp add: int32_of_size_t_def Let_def)

lemma size_t_of_nonneg: "int n < 2 ^ 64 \<Longrightarrow> size_t_of_int64 (int n) = n"
  by (simp add: size_t_of_int64_def)

lemma map_int32_small: "\<forall>x\<in>set xs. int x < 2 ^ 31 \<Longrightarrow> map int32_of_size_t xs = map int xs"
  by (simp add: int32_of_small)

lemma map_size_t_small: "\<forall>x\<in>set xs. int x < 2 ^ 31 \<Longrightarrow> map size_t_of_int64 (map int xs) = xs"
proof (induction xs)
  case Nil
  then show ?case by simp
next
  case (Cons x xs)
  then have "int x < 2 ^ 31" by simp
  then have "int x < 2 ^ 64" by simp
  with Cons show ?case by (simp add: size_t_of_nonneg)
qed

lemma unpack_packed:
  assumes "\<forall>b\<in>set B. \<forall>x\<in>set b. int x < 2 ^ 31"
    and "int (length pre) + int (sum_list (map length B)) < 2 ^ 31"
  shows "unpack_buckets (map (\<lambda>b. int (length b)) B) (pre @ map int (concat B) @ rest) (length pre)
       = Inr B"
  using assms
proof (induction B arbitrary: pre)
  case Nil
  then show ?case by simp
next
  case (Cons b B)
  then have small: "\<forall>x\<in>set b. int x < 2 ^ 31" and rest: "\<forall>b\<in>set B. \<forall>x\<in>set b. int x < 2 ^ 31"
    by simp_all
  from Cons.prems(2) have fit: "int (length pre) + int (length b) < 2 ^ 31"
    and next_fit: "int (length (pre @ map int b)) + int (sum_list (map length B)) < 2 ^ 31"
    by simp_all
  have tk: "take (length b) (drop (length pre) (pre @ map int (concat (b # B)) @ rest)) = map int b"
    by simp
  have re: "pre @ map int (concat (b # B)) @ rest = (pre @ map int b) @ map int (concat B) @ rest"
    by simp
  have pos: "length pre + length b = length (pre @ map int b)" by simp
  from Cons.IH [OF rest next_fit] have
    ih: "unpack_buckets (map (\<lambda>b. int (length b)) B)
           (pre @ map int (concat (b # B)) @ rest) (length pre + length b) = Inr B"
    unfolding re pos .
  have inside: "length pre + length b \<le> length (pre @ map int (concat (b # B)) @ rest)"
    by simp
  from ih tk inside fit map_size_t_small [OF small] show ?case
    by (simp del: append_assoc concat.simps)
qed

lemma pack_own_sizes:
  "pack_bucket_sizes (length ls) ls = Inr (map int32_of_size_t ls)"
proof -
  have "map (\<lambda>i. int32_of_size_t (ls ! min i (length ls - 1))) [0..<length ls] = map int32_of_size_t ls"
    by (rule nth_equalityI) (auto simp: min_def)
  then show ?thesis by (auto simp: pack_bucket_sizes_def)
qed

lemma pack_padded_sizes:
  assumes "ls \<noteq> []" and "length ls \<le> n"
  shows "pack_bucket_sizes n ls =
     Inr (map int32_of_size_t (ls @ replicate (n - length ls) (last ls)))"
proof -
  have "map (\<lambda>i. int32_of_size_t (ls ! min i (length ls - 1))) [0..<n]
      = map int32_of_size_t (ls @ replicate (n - length ls) (last ls))"
  proof (rule nth_equalityI)
    show "length (map (\<lambda>i. int32_of_size_t (ls ! min i (length ls - 1))) [0..<n])
        = length (map int32_of_size_t (ls @ replicate (n - length ls) (last ls)))"
      using assms by simp
  next
    fix i assume "i < length (map (\<lambda>i. int32_of_size_t (ls ! min i (length ls - 1))) [0..<n])"
    then have i: "i < n" by simp
    show "map (\<lambda>i. int32_of_size_t (ls ! min i (length ls - 1))) [0..<n] ! i
        = map int32_of_size_t (ls @ replicate (n - length ls) (last ls)) ! i"
    proof (cases "i < length ls")
      case True
      then have "min i (length ls - 1) = i" by arith
      with True i show ?thesis by (simp add: nth_append)
    next
      case False
      with assms have "min i (length ls - 1) = length ls - 1" by (cases ls) auto
      with False i assms show ?thesis
        by (simp add: nth_append last_conv_nth)
    qed
  qed
  with assms show ?thesis by (simp add: pack_bucket_sizes_def)
qed

lemma fits_bucket_sizes:
  assumes "fits_int32 B" and "b \<in> set B"
  shows "int (length b) < 2 ^ 31"
proof -
  from assms(2) have "length b \<le> sum_list (map length B)"
    by (intro member_le_sum_list) simp_all
  with assms(1) show ?thesis by (simp add: fits_int32_def)
qed

lemma pack_indices_small:
  assumes "fits_int32 B"
  shows "pack_indices B = map int (concat B) @ [int (length B)]"
proof -
  from assms have "\<forall>x\<in>set (concat B). int x < 2 ^ 31" by (auto simp: fits_int32_def)
  then have "map int32_of_size_t (concat B) = map int (concat B)" by (rule map_int32_small)
  moreover from assms have "int32_of_size_t (length B) = int (length B)"
    by (simp add: fits_int32_def int32_of_small)
  ultimately show ?thesis by (simp add: pack_indices_def)
qed

lemma sizes_small:
  assumes "fits_int32 B"
  shows "map (int32_of_size_t \<circ> length) B = map (\<lambda>b. int (length b)) B"
  using fits_bucket_sizes [OF assms] by (simp add: int32_of_small)

lemma unpack_own:
  assumes fits: "fits_int32 B"
  shows "unpack_buckets (map (\<lambda>b. int (length b)) B) (pack_indices B) 0 = Inr B"
proof -
  from fits have a: "\<forall>b\<in>set B. \<forall>x\<in>set b. int x < 2 ^ 31"
    and b: "int (length ([] :: int list)) + int (sum_list (map length B)) < 2 ^ 31"
    by (simp_all add: fits_int32_def)
  from unpack_packed [OF a b, of "[int (length B)]"] show ?thesis
    by (simp add: pack_indices_small [OF fits])
qed

lemma sync_from_root:
  assumes fits: "fits_int32 B" and reps: "replicas s \<noteq> []" "replicas s ! 0 \<noteq> []"
    and local: "L \<noteq> [] \<or> B = []" and total: "sum_list (map length L) = sum_list (map length B)"
  shows "sync_bucket_indices (\<lambda>local. pack_indices B)
           (\<lambda>local. map int32_of_size_t (map length B)) L s = Inr B"
proof -
  have pk: "pack_indices B = map int (concat B) @ [int (length B)]"
    by (rule pack_indices_small [OF fits])
  have len: "length (pack_indices B) = length (pack_indices L)"
    using total by (simp add: pack_indices_def length_concat)
  have tr: "pack_indices B ! sum_list (map length L) = int (length B)"
  proof -
    have "sum_list (map length L) = length (map int (concat B))"
      by (simp add: total length_concat)
    then show ?thesis unfolding pk by (simp only: nth_append_length)
  qed
  from fits have tot: "int (sum_list (map length L)) < 2 ^ 31"
    by (simp add: total fits_int32_def)
  from local obtain t where t: "pack_bucket_sizes (length B) (map length L) = Inr t"
      "length t = length B"
    by (auto simp: pack_bucket_sizes_def)
  note un = unpack_own [OF fits]
  show ?thesis
    using reps len tr t un tot
    by (simp add: sync_bucket_indices_def Let_def sizes_small [OF fits])
qed

text \<open>
  Claim C7, as stated, asks only that every index fits in 32 bits.  The index \<open>2 ^ 31\<close>
  does, but the tensor element is a signed 32-bit integer: on rank 0, where the broadcasts
  return the rank's own data, the index comes back sign-extended.  And with \<open>2 ^ 31\<close>
  indices, each of them zero, the \<^verbatim>\<open>int\<close> that counts the positions overflows.
\<close>

theorem sync_claim_counterexample:
  "(2147483648 :: nat) < 2 ^ 32 \<and>
   sync_bucket_indices id id [[2147483648]] example_reducer = Inr [[18446744071562067968]] \<and>
   sync_bucket_indices id id [replicate 2147483648 0] example_reducer = Inl UndefinedBehaviour"
  by (simp add: sync_bucket_indices_def pack_indices_def int32_of_size_t_def
        pack_bucket_sizes_def size_t_of_int64_def example_reducer_def Let_def)

text \<open>
  Claim C7, amended.  Provided every index, the number of buckets and the number of all
  indices are below \<open>2 ^ 31\<close>: on rank 0, where each broadcast returns the rank's own data,
  \<^verbatim>\<open>sync_bucket_indices\<close> returns its input; on a rank with a non-empty local list of the
  same total size, where the broadcasts deliver the two tensors of rank 0, it returns
  the list of rank 0, so nothing of the local list survives.  And on every rank with a
  non-empty local list of fewer than \<open>2 ^ 31\<close> indices in at most \<open>n\<close> buckets, where \<open>n\<close>
  is the bucket count that the first broadcast delivers: what the rank hands to the
  second broadcast is its own sizes followed by repetitions of its last size, \<open>n\<close> sizes
  in all, and the result is unpacked from what the two broadcasts return alone.
\<close>

theorem sync_bucket_indices_agreement:
  assumes fits: "fits_int32 B" and reps: "replicas s \<noteq> []" "replicas s ! 0 \<noteq> []"
  shows "sync_bucket_indices (\<lambda>local. local) (\<lambda>local. local) B s = Inr B \<and>
     (\<forall>L. L \<noteq> [] \<and> sum_list (map length L) = sum_list (map length B) \<longrightarrow>
          sync_bucket_indices (\<lambda>local. pack_indices B)
            (\<lambda>local. map int32_of_size_t (map length B)) L s = Inr B) \<and>
     (\<forall>L broadcast_indices broadcast_sizes n.
          L \<noteq> [] \<and> int (sum_list (map length L)) < 2 ^ 31 \<and>
          length (broadcast_indices (pack_indices L)) = length (pack_indices L) \<and>
          broadcast_indices (pack_indices L) ! sum_list (map length L) = int n \<and>
          length L \<le> n \<longrightarrow>
          sync_bucket_indices broadcast_indices broadcast_sizes L s =
            (let padded = map int32_of_size_t
                            (map length L @ replicate (n - length L) (length (last L)))
             in if length (broadcast_sizes padded) \<noteq> n then Inl CollectiveShapeMismatch
                else unpack_buckets (broadcast_sizes padded)
                       (broadcast_indices (pack_indices L)) 0))"
proof -
  have pk: "pack_indices B = map int (concat B) @ [int (length B)]"
    by (rule pack_indices_small [OF fits])
  have tr: "pack_indices B ! sum_list (map length B) = int (length B)"
  proof -
    have "sum_list (map length B) = length (map int (concat B))"
      by (simp add: length_concat)
    then show ?thesis unfolding pk by (simp only: nth_append_length)
  qed
  have own: "pack_bucket_sizes (length B) (map length B) = Inr (map int32_of_size_t (map length B))"
    using pack_own_sizes [of "map length B"] by simp
  note un = unpack_own [OF fits]
  from fits have tot: "int (sum_list (map length B)) < 2 ^ 31" by (simp add: fits_int32_def)
  have root: "sync_bucket_indices (\<lambda>local. local) (\<lambda>local. local) B s = Inr B"
    using reps tr own un tot
    by (simp add: sync_bucket_indices_def Let_def sizes_small [OF fits])
  have others: "sync_bucket_indices (\<lambda>local. pack_indices B)
            (\<lambda>local. map int32_of_size_t (map length B)) L s = Inr B"
    if "L \<noteq> [] \<and> sum_list (map length L) = sum_list (map length B)" for L
    using that sync_from_root [OF fits reps, of L] by simp
  have padding: "sync_bucket_indices bi bs L s =
            (let padded = map int32_of_size_t
                            (map length L @ replicate (n - length L) (length (last L)))
             in if length (bs padded) \<noteq> n then Inl CollectiveShapeMismatch
                else unpack_buckets (bs padded) (bi (pack_indices L)) 0)"
    if a: "L \<noteq> [] \<and> int (sum_list (map length L)) < 2 ^ 31 \<and>
          length (bi (pack_indices L)) = length (pack_indices L) \<and>
          bi (pack_indices L) ! sum_list (map length L) = int n \<and> length L \<le> n"
    for L :: "nat list list" and bi bs n
  proof -
    from a have "map length L \<noteq> []" "length (map length L) \<le> n" by simp_all
    from pack_padded_sizes [OF this] a have
      p: "pack_bucket_sizes n (map length L) =
            Inr (map int32_of_size_t (map length L @ replicate (n - length L) (length (last L))))"
      by (simp add: last_map)
    from a have ln: "length (map int32_of_size_t
        (map length L @ replicate (n - length L) (length (last L)))) = n" by simp
    show ?thesis
      using a reps p ln
      by (simp add: sync_bucket_indices_def Let_def del: map_append)
  qed
  show ?thesis
    apply (intro conjI)
      apply (rule root)
     apply (intro allI impI, rule others, assumption)
    apply (intro allI impI, rule padding, assumption)
    done
qed

theorem sync_bucket_indices_agreement_witness:
  "fits_int32 [[3, 1], [0, 2]] \<and> replicas example_reducer \<noteq> [] \<and>
   replicas example_reducer ! 0 \<noteq> [] \<and>
   sync_bucket_indices (\<lambda>local. local) (\<lambda>local. local) [[3, 1], [0, 2]] example_reducer
     = Inr [[3, 1], [0, 2]] \<and>
   pack_indices [[3, 1], [0, 2]] = [3, 1, 0, 2, 2] \<and>
   sync_bucket_indices (\<lambda>local. [3, 1, 0, 2, 2])
     (\<lambda>local. map int32_of_size_t (map length [[3, 1], [0, 2 :: nat]])) [[0, 1, 2, 3]]
     example_reducer = Inr [[3, 1], [0, 2]] \<and>
   sync_bucket_indices (\<lambda>local. [3, 1, 0, 2, 2])
     (\<lambda>local. if local = [4, 4] then [2, 2] else [5, 5]) [[0, 1, 2, 3]]
     example_reducer = Inr [[3, 1], [0, 2]]"
proof -
  have f: "fits_int32 [[3, 1], [0, 2]]" by (simp add: fits_int32_def)
  have r: "replicas example_reducer \<noteq> []" "replicas example_reducer ! 0 \<noteq> []" by code_simp+
  have pk: "pack_indices [[3, 1], [0, 2]] = [3, 1, 0, 2, 2]" by code_simp
  note t = sync_bucket_indices_agreement [OF f r]
  note a = t [THEN conjunct1]
  have "[[0, 1, 2, 3 :: nat]] \<noteq> [] \<and>
      sum_list (map length [[0, 1, 2, 3 :: nat]]) = sum_list (map length [[3, 1], [0, 2 :: nat]])"
    by simp
  with t [THEN conjunct2, THEN conjunct1, THEN spec, of "[[0, 1, 2, 3]]"]
  have b: "sync_bucket_indices (\<lambda>local. pack_indices [[3, 1], [0, 2]])
     (\<lambda>local. map int32_of_size_t (map length [[3, 1], [0, 2 :: nat]])) [[0, 1, 2, 3]]
     example_reducer = Inr [[3, 1], [0, 2]]" by (rule mp)
  have c: "sync_bucket_indices (\<lambda>local. [3, 1, 0, 2, 2])
     (\<lambda>local. if local = [4, 4] then [2, 2] else [5, 5]) [[0, 1, 2, 3]]
     example_reducer = Inr [[3, 1], [0, 2]]" by code_simp
  from f r a b c pk show ?thesis by (simp only: pk simp_thms)
qed

section \<open>Properties of the bucket construction\<close>

lemma for_each_do_prefix:
  assumes "for_each_do xs body s = Inr s'" and "P ys s"
    and "\<And>zs i t t'. i \<in> set xs \<Longrightarrow> P zs t \<Longrightarrow> body i t = Inr t' \<Longrightarrow> P (zs @ [i]) t'"
  shows "P (ys @ xs) s'"
  using assms
proof (induction xs arbitrary: ys s)
  case Nil
  then show ?case by simp
next
  case (Cons x xs)
  from Cons.prems(1) obtain t where t: "body x s = Inr t" "for_each_do xs body t = Inr s'"
    by (auto split: sum.splits)
  from Cons.prems(3) [of x ys s t] Cons.prems(2) t(1) have "P (ys @ [x]) t" by simp
  from Cons.IH [OF t(2) this] Cons.prems(3) show ?case by simp
qed

lemma for_each_do_invariant:
  assumes "for_each_do xs body s = Inr s'" and "P s"
    and "\<And>i t t'. i \<in> set xs \<Longrightarrow> P t \<Longrightarrow> body i t = Inr t' \<Longrightarrow> P t'"
  shows "P s'"
  using for_each_do_prefix [of xs body s s' "\<lambda>zs. P" "[]"] assms by blast

lemma for_each_prefix:
  assumes "for_each xs body s = Inr s'" and "P ys s"
    and "\<And>zs i t t'. i \<in> set xs \<Longrightarrow> P zs t \<Longrightarrow> body i t = Inr t' \<Longrightarrow> P (zs @ [i]) t'"
  shows "P (ys @ xs) s'"
  using assms
proof (induction xs arbitrary: ys s)
  case Nil
  then show ?case by simp
next
  case (Cons x xs)
  from Cons.prems(1) obtain t where t: "body x s = Inr t" "for_each xs body t = Inr s'"
    by (auto split: sum.splits)
  from Cons.prems(3) [of x ys s t] Cons.prems(2) t(1) have "P (ys @ [x]) t" by simp
  from Cons.IH [OF t(2) this] Cons.prems(3) show ?case by simp
qed

lemma same_structure_refl [simp]: "same_structure s s"
  by (simp add: same_structure_def)

lemma same_structure_trans:
  "same_structure s t \<Longrightarrow> same_structure t u \<Longrightarrow> same_structure s u"
  by (simp add: same_structure_def)

lemma prefix_sums_snoc: "prefix_sums (ls @ [l]) = prefix_sums ls @ [sum_list ls]"
  by (simp add: prefix_sums_def)

lemma prefix_sums_Nil [simp]: "prefix_sums [] = []"
  by (simp add: prefix_sums_def)

lemma initialize_bucket_view_result:
  assumes "initialize_bucket_view flat copy i (replica, s) = Inr (replica', s')"
  shows "\<exists>v. replica' = replica\<lparr>bucket_views := bucket_views replica @ [v]\<rparr> \<and>
             storage v = storage flat \<and> same_structure s s'"
  using assms
  by (auto simp: initialize_bucket_view_def Let_def as_strided_def view_as_def narrow0_def
        same_structure_def split: if_splits option.splits sum.splits)

lemma initialize_bucket_views_result:
  assumes "initialize_bucket_views replica flat copy s = Inr (replica', s')"
  shows "\<exists>vs. replica' = replica\<lparr>bucket_views := bucket_views replica @ vs\<rparr> \<and>
           length vs = length (variables replica) \<and>
           (\<forall>v\<in>set vs. storage v = storage flat) \<and> same_structure s s'"
proof -
  from assms have run: "for_each_do [0..<length (variables replica)]
      (initialize_bucket_view flat copy) (replica, s) = Inr (replica', s')"
    by (auto simp: initialize_bucket_views_def split: sum.splits)
  have init: "views_added flat (replica, s) [] (replica, s)"
    by (simp add: views_added_def)
  have step: "views_added flat (replica, s) (zs @ [i]) t'"
    if "views_added flat (replica, s) zs t" "initialize_bucket_view flat copy i t = Inr t'"
    for zs i t t'
  proof -
    obtain r1 s1 where t: "t = (r1, s1)" by (cases t)
    obtain r2 s2 where t': "t' = (r2, s2)" by (cases t')
    from that(2) [unfolded t t'] initialize_bucket_view_result obtain v where
      v: "r2 = r1\<lparr>bucket_views := bucket_views r1 @ [v]\<rparr>" "storage v = storage flat"
        "same_structure s1 s2" by blast
    from that(1) [unfolded t] obtain vs where
      vs: "r1 = replica\<lparr>bucket_views := bucket_views replica @ vs\<rparr>" "length vs = length zs"
        "\<forall>v\<in>set vs. storage v = storage flat" "same_structure s s1"
      by (auto simp: views_added_def)
    have "r2 = replica\<lparr>bucket_views := bucket_views replica @ (vs @ [v])\<rparr>"
      by (simp add: v(1) vs(1))
    with v vs show ?thesis
      unfolding views_added_def t'
      by (intro exI [of _ "vs @ [v]"]) (auto intro: same_structure_trans)
  qed
  from for_each_do_prefix [of _ _ _ _ "views_added flat (replica, s)", OF run init] step
  have "views_added flat (replica, s) [0..<length (variables replica)] (replica', s')"
    by fastforce
  then show ?thesis by (auto simp: views_added_def)
qed

lemma add_dense_variable_ok:
  assumes "builder_ok u zs b" and "add_dense_variable vars i b = Inr b'"
  shows "builder_ok u (zs @ [i]) b'"
  using assms
  by (auto simp: builder_ok_def add_dense_variable_def Let_def prefix_sums_snoc
        split: if_splits)

lemma build_dense_ok:
  assumes "for_each indices (add_dense_variable vars)
     \<lparr>built = fresh_replica u, options_device = None, options_dtype = None,
      running_offset = 0\<rparr> = Inr b"
  shows "builder_ok u indices b"
proof -
  have "builder_ok u [] \<lparr>built = fresh_replica u, options_device = None,
      options_dtype = None, running_offset = 0\<rparr>"
    by (simp add: builder_ok_def fresh_replica_def)
  from for_each_prefix [of _ _ _ _ "builder_ok u", OF assms this] add_dense_variable_ok
  show ?thesis by fastforce
qed

lemma initialize_replica_result:
  assumes "initialize_replica u sparse indices r s = Inr (replica, s')"
    and "indices \<noteq> []" and "sparse \<longrightarrow> length indices = 1"
  shows "replica_ok sparse (length indices) replica \<and>
         replicas s' = replicas s \<and> expect_sparse_gradients s' = expect_sparse_gradients s \<and>
         buckets s' = buckets s \<and> variable_locators s' = variable_locators s"
proof (cases sparse)
  case True
  with assms show ?thesis
    by (auto simp: initialize_replica_def replica_ok_def fresh_replica_def
          split: list.splits if_splits)
next
  case False
  with assms(1) obtain b where
    b: "for_each indices (add_dense_variable (replicas s ! r))
     \<lparr>built = fresh_replica u, options_device = None, options_dtype = None,
      running_offset = 0\<rparr> = Inr b"
    by (auto simp: initialize_replica_def split: sum.splits)
  define flat where "flat = empty_tensor (next_storage s) (running_offset b)
                             (case options_dtype b of None \<Rightarrow> kFloat | Some ty \<Rightarrow> ty)
                             (case options_device b of None \<Rightarrow> Device kCPU (- 1) | Some d \<Rightarrow> d)"
  from assms(1) False b have run: "initialize_bucket_views ((built b)\<lparr>contents := Some flat\<rparr>) flat True
                 (s\<lparr>next_storage := next_storage s + 1\<rparr>) = Inr (replica, s')"
    by (simp add: initialize_replica_def Let_def flat_def)
  from build_dense_ok [OF b] have ok: "builder_ok u indices b" .
  from initialize_bucket_views_result [OF run] obtain vs where
    vs: "replica = (built b)\<lparr>contents := Some flat, bucket_views := bucket_views (built b) @ vs\<rparr>"
      "length vs = length (variables (built b))"
      "\<forall>v\<in>set vs. storage v = storage flat"
      "same_structure (s\<lparr>next_storage := next_storage s + 1\<rparr>) s'"
    by auto
  have nf: "numel flat = running_offset b"
    by (simp add: flat_def empty_tensor_def numel_def)
  from ok vs nf have "replica_ok False (length indices) replica"
    by (auto simp: replica_ok_def builder_ok_def)
  with vs(4) False show ?thesis by (simp add: same_structure_def)
qed

lemma sparse_expectation_single:
  "sparse_expectation indices s = Inr True \<Longrightarrow> length indices = 1"
  by (auto simp: sparse_expectation_def split: if_splits list.splits option.splits)

lemma initialize_replicas_result:
  assumes run: "for_each_do [0..<R] (initialize_replicas u sparse indices) ([], s)
      = Inr (reps, s1)"
    and ne: "indices \<noteq> []" and sp: "sparse \<longrightarrow> length indices = 1"
  shows "length reps = R \<and> (\<forall>replica\<in>set reps. replica_ok sparse (length indices) replica) \<and>
         same_structure s s1"
proof -
  have init: "replicas_built sparse (length indices) s [] ([], s)"
    by (simp add: replicas_built_def)
  have step: "replicas_built sparse (length indices) s (zs @ [i]) t'"
    if "replicas_built sparse (length indices) s zs t"
      "initialize_replicas u sparse indices i t = Inr t'" for zs i t t'
  proof -
    obtain d1 s2 where t: "t = (d1, s2)" by (cases t)
    obtain d2 s3 where t': "t' = (d2, s3)" by (cases t')
    from that(2) [unfolded t t'] obtain replica where
      r: "initialize_replica u sparse indices i s2 = Inr (replica, s3)" "d2 = d1 @ [replica]"
      by (auto simp: initialize_replicas_def split: sum.splits prod.splits)
    from initialize_replica_result [OF r(1) ne sp]
    have "replica_ok sparse (length indices) replica" "same_structure s2 s3"
      by (simp_all add: same_structure_def)
    with that(1) r(2) show ?thesis
      unfolding replicas_built_def t t'
      by (auto intro: same_structure_trans)
  qed
  from for_each_do_prefix [of _ _ _ _ "replicas_built sparse (length indices) s", OF run init] step
  have "replicas_built sparse (length indices) s [0..<R] (reps, s1)" by fastforce
  then show ?thesis by (simp add: replicas_built_def)
qed

lemma set_locator_step:
  assumes "locators_set b s zs t" and "set_locator b p t = Inr t'"
  shows "locators_set b s (zs @ [p]) t'"
proof -
  obtain k v where p: "p = (k, v)" by (cases p)
  from assms(2) have v: "v < length (variable_locators t)"
    and t': "t' = t\<lparr>variable_locators := (variable_locators t)
                      [v := \<lparr>bucket_index = b, intra_bucket_index = k\<rparr>]\<rparr>"
    by (auto simp: set_locator_def p split: if_splits)
  from assms(1) have a: "replicas t = replicas s" "expect_sparse_gradients t = expect_sparse_gradients s"
    "buckets t = buckets s" "length (variable_locators t) = length (variable_locators s)"
    "\<forall>x. x \<notin> snd ` set zs \<longrightarrow> variable_locators t ! x = variable_locators s ! x"
    "\<forall>x\<in>snd ` set zs. x < length (variable_locators s)"
    "distinct (map snd zs) \<longrightarrow>
         (\<forall>p\<in>set zs. variable_locators t ! snd p
                          = \<lparr>bucket_index = b, intra_bucket_index = fst p\<rparr>)"
    by (simp_all add: locators_set_def)
  have 1: "\<forall>x. x \<notin> snd ` set (zs @ [p]) \<longrightarrow> variable_locators t' ! x = variable_locators s ! x"
    using a(5) by (auto simp: t' p)
  have 2: "\<forall>x\<in>snd ` set (zs @ [p]). x < length (variable_locators s)"
    using a(4,6) v by (auto simp: p)
  have 3: "\<forall>q\<in>set (zs @ [p]). variable_locators t' ! snd q
                          = \<lparr>bucket_index = b, intra_bucket_index = fst q\<rparr>"
    if d: "distinct (map snd (zs @ [p]))"
  proof
    fix q assume q: "q \<in> set (zs @ [p])"
    show "variable_locators t' ! snd q = \<lparr>bucket_index = b, intra_bucket_index = fst q\<rparr>"
    proof (cases "q \<in> set zs")
      case True
      with d have "snd q \<noteq> v" by (auto simp: p)
      moreover from d a(7) True have "variable_locators t ! snd q
          = \<lparr>bucket_index = b, intra_bucket_index = fst q\<rparr>" by simp
      ultimately show ?thesis by (simp add: t')
    next
      case False
      with q have "q = (k, v)" by (simp add: p)
      with v show ?thesis by (simp add: t')
    qed
  qed
  from a(1-4) 1 2 3 show ?thesis
    unfolding locators_set_def by (simp add: t')
qed

lemma set_locators_result:
  assumes run: "for_each_do (zip [0..<length indices] indices) (set_locator b) s = Inr s'"
    and d: "distinct indices"
  shows "replicas s' = replicas s \<and> expect_sparse_gradients s' = expect_sparse_gradients s \<and>
      buckets s' = buckets s \<and>
      length (variable_locators s') = length (variable_locators s) \<and>
      (\<forall>x. x \<notin> set indices \<longrightarrow> variable_locators s' ! x = variable_locators s ! x) \<and>
      (\<forall>x\<in>set indices. x < length (variable_locators s)) \<and>
      (\<forall>i<length indices. variable_locators s' ! (indices ! i)
                          = \<lparr>bucket_index = b, intra_bucket_index = i\<rparr>)"
proof -
  let ?zs = "zip [0..<length indices] indices"
  have init: "locators_set b s [] s" by (simp add: locators_set_def)
  from for_each_do_prefix [of _ _ _ _ "locators_set b s", OF run init] set_locator_step
  have ls: "locators_set b s ?zs s'" by fastforce
  have sn: "map snd ?zs = indices" by simp
  then have img: "snd ` set ?zs = set indices" by (metis set_map)
  have "\<forall>i<length indices. variable_locators s' ! (indices ! i)
                          = \<lparr>bucket_index = b, intra_bucket_index = i\<rparr>"
  proof (intro allI impI)
    fix i assume i: "i < length indices"
    then have "(i, indices ! i) \<in> set ?zs"
      unfolding set_zip by (intro CollectI exI [of _ i]) simp
    with ls d sn show "variable_locators s' ! (indices ! i)
                          = \<lparr>bucket_index = b, intra_bucket_index = i\<rparr>"
      unfolding locators_set_def by fastforce
  qed
  with ls img show ?thesis unfolding locators_set_def by simp
qed

lemma initialize_bucket_result:
  assumes run: "initialize_bucket u (b, indices) s = Inr s'" and d: "distinct indices"
  shows "\<exists>B. buckets s' = buckets s @ [B] \<and> variable_indices B = indices \<and>
      bucket_ok (length (replicas s)) B \<and>
      replicas s' = replicas s \<and> expect_sparse_gradients s' = expect_sparse_gradients s \<and>
      length (variable_locators s') = length (variable_locators s) \<and>
      (\<forall>x. x \<notin> set indices \<longrightarrow> variable_locators s' ! x = variable_locators s ! x) \<and>
      (\<forall>x\<in>set indices. x < length (variable_locators s)) \<and>
      (\<forall>i<length indices. variable_locators s' ! (indices ! i)
                          = \<lparr>bucket_index = b, intra_bucket_index = i\<rparr>)"
proof -
  from run have ne: "indices \<noteq> []"
    by (auto simp: initialize_bucket_def split: if_splits)
  from run ne obtain sparse where sp: "sparse_expectation indices s = Inr sparse"
    by (auto simp: initialize_bucket_def split: sum.splits)
  from run ne sp obtain reps s1 where
    reps: "for_each_do [0..<length (replicas s)] (initialize_replicas u sparse indices) ([], s)
      = Inr (reps, s1)"
    by (auto simp: initialize_bucket_def split: sum.splits prod.splits)
  from run ne sp reps obtain s2 where
    s2: "for_each_do (zip [0..<length indices] indices) (set_locator b) s1 = Inr s2"
    and s': "s' = s2\<lparr>buckets := buckets s2 @
                                [\<lparr>bucket_replicas = reps, variable_indices = indices,
                                  bucket_pending = u, work = None,
                                  future_work = None, expect_sparse_gradient = sparse\<rparr>]\<rparr>"
    by (auto simp: initialize_bucket_def split: sum.splits prod.splits)
  from sp have single: "sparse \<longrightarrow> length indices = 1"
    using sparse_expectation_single [of indices s] by (cases sparse) simp_all
  from initialize_replicas_result [OF reps ne single]
  have r: "length reps = length (replicas s)"
    "\<forall>replica\<in>set reps. replica_ok sparse (length indices) replica"
    "same_structure s s1" by simp_all
  note l = set_locators_result [OF s2 d]
  let ?B = "\<lparr>bucket_replicas = reps, variable_indices = indices,
                                  bucket_pending = u, work = None,
                                  future_work = None, expect_sparse_gradient = sparse\<rparr>"
  have ok: "bucket_ok (length (replicas s)) ?B"
    using r ne by (simp add: bucket_ok_def)
  from r(3) have st: "replicas s1 = replicas s" "expect_sparse_gradients s1 = expect_sparse_gradients s"
    "buckets s1 = buckets s" "variable_locators s1 = variable_locators s"
    by (simp_all add: same_structure_def)
  show ?thesis
    apply (rule exI [of _ ?B])
    using ok l st by (simp add: s')
qed

lemma buckets_built_step:
  assumes inv: "buckets_built N R zs t" and run: "initialize_bucket u p t = Inr t'"
    and d: "distinct (snd p)"
  shows "buckets_built N R (zs @ [p]) t'"
proof -
  obtain b indices where p: "p = (b, indices)" by (cases p)
  from inv have a: "length (replicas t) = R" "length (variable_locators t) = N"
    "map variable_indices (buckets t) = map snd zs" "\<forall>B\<in>set (buckets t). bucket_ok R B"
    and old: "distinct (concat (map snd zs)) \<and> map fst zs = [0..<length zs] \<longrightarrow>
         (\<forall>j<length zs. \<forall>i<length (snd (zs ! j)).
            snd (zs ! j) ! i < N \<and>
            variable_locators t ! (snd (zs ! j) ! i)
              = \<lparr>bucket_index = j, intra_bucket_index = i\<rparr>)"
    by (simp_all add: buckets_built_def)
  from d p have di: "distinct indices" by simp
  from initialize_bucket_result [OF run [unfolded p] di] obtain B where
    B: "buckets t' = buckets t @ [B]" "variable_indices B = indices"
      "bucket_ok (length (replicas t)) B" "replicas t' = replicas t"
      "length (variable_locators t') = length (variable_locators t)"
      "\<forall>x. x \<notin> set indices \<longrightarrow> variable_locators t' ! x = variable_locators t ! x"
      "\<forall>x\<in>set indices. x < length (variable_locators t)"
      "\<forall>i<length indices. variable_locators t' ! (indices ! i)
                          = \<lparr>bucket_index = b, intra_bucket_index = i\<rparr>"
    by blast
  have loc: "\<forall>j<length (zs @ [p]). \<forall>i<length (snd ((zs @ [p]) ! j)).
            snd ((zs @ [p]) ! j) ! i < N \<and>
            variable_locators t' ! (snd ((zs @ [p]) ! j) ! i)
              = \<lparr>bucket_index = j, intra_bucket_index = i\<rparr>"
    if h: "distinct (concat (map snd (zs @ [p]))) \<and> map fst (zs @ [p]) = [0..<length (zs @ [p])]"
  proof (intro allI impI)
    fix j i assume j: "j < length (zs @ [p])" and i: "i < length (snd ((zs @ [p]) ! j))"
    from h have dz: "distinct (concat (map snd zs))"
      and disj: "set (concat (map snd zs)) \<inter> set indices = {}"
      by (simp_all add: p)
    from h have "map fst zs @ [b] = [0..<length zs] @ [length zs]" by (simp add: p)
    then have fz: "map fst zs = [0..<length zs]" and bl: "b = length zs" by simp_all
    show "snd ((zs @ [p]) ! j) ! i < N \<and>
            variable_locators t' ! (snd ((zs @ [p]) ! j) ! i)
              = \<lparr>bucket_index = j, intra_bucket_index = i\<rparr>"
    proof (cases "j < length zs")
      case True
      with i have i': "i < length (snd (zs ! j))" by (simp add: nth_append)
      from old dz fz True i' have o: "snd (zs ! j) ! i < N"
        "variable_locators t ! (snd (zs ! j) ! i) = \<lparr>bucket_index = j, intra_bucket_index = i\<rparr>"
        by simp_all
      from True i' have "snd (zs ! j) ! i \<in> set (concat (map snd zs))"
        by (auto simp: in_set_conv_nth intro!: bexI [of _ "zs ! j"])
      with disj have "snd (zs ! j) ! i \<notin> set indices" by blast
      with B(6) o True show ?thesis by (simp add: nth_append)
    next
      case False
      with j have jl: "j = length zs" by simp
      with i have i': "i < length indices" by (simp add: p)
      from B(7,8) i' a(2) bl jl show ?thesis by (simp add: p)
    qed
  qed
  from a B loc show ?thesis
    unfolding buckets_built_def by (simp add: p)
qed

lemma initialize_buckets_built:
  assumes run: "initialize_buckets u bucket_indices s = Inr s'"
    and d: "distinct (concat bucket_indices)"
  shows "buckets_built (length (replicas s ! 0)) (length (replicas s))
           (zip [0..<length bucket_indices] bucket_indices) s'"
proof -
  let ?s0 = "s\<lparr>buckets := [],
             variable_locators :=
               replicate (length (replicas s ! 0)) \<lparr>bucket_index = 0, intra_bucket_index = 0\<rparr>\<rparr>"
  let ?xs = "zip [0..<length bucket_indices] bucket_indices"
  from run have loop: "for_each_do ?xs (initialize_bucket u) ?s0 = Inr s'"
    by (auto simp: initialize_buckets_def split: if_splits)
  have init: "buckets_built (length (replicas s ! 0)) (length (replicas s)) [] ?s0"
    by (simp add: buckets_built_def)
  have step: "buckets_built (length (replicas s ! 0)) (length (replicas s)) (zs @ [p]) t'"
    if "p \<in> set ?xs" "buckets_built (length (replicas s ! 0)) (length (replicas s)) zs t"
      "initialize_bucket u p t = Inr t'" for zs p t t'
  proof -
    obtain b indices where p: "p = (b, indices)" by (cases p)
    from that(1) have "snd p \<in> set bucket_indices"
      unfolding p by (auto dest: set_zip_rightD)
    with d have "distinct (snd p)" by (auto simp: distinct_concat_iff)
    from buckets_built_step [OF that(2,3) this] show ?thesis .
  qed
  from for_each_do_prefix [of _ _ _ _ 
      "buckets_built (length (replicas s ! 0)) (length (replicas s))", OF loop init] step
  show ?thesis by fastforce
qed

lemma initialize_buckets_resolves:
  assumes run: "initialize_buckets u bucket_indices s = Inr s'"
    and once: "mset (concat bucket_indices) = mset [0..<length (replicas s ! 0)]"
  shows "replicas s \<noteq> [] \<and> length (replicas s') = length (replicas s) \<and>
    length (variable_locators s') = length (replicas s ! 0) \<and>
    map variable_indices (buckets s') = bucket_indices \<and>
    (\<forall>B\<in>set (buckets s'). bucket_ok (length (replicas s)) B) \<and>
    (\<forall>j<length (buckets s'). \<forall>i<length (variable_indices (buckets s' ! j)).
        variable_indices (buckets s' ! j) ! i < length (variable_locators s') \<and>
        variable_locators s' ! (variable_indices (buckets s' ! j) ! i)
          = \<lparr>bucket_index = j, intra_bucket_index = i\<rparr>) \<and>
    (\<forall>p<length (replicas s ! 0).
        bucket_index (variable_locators s' ! p) < length (buckets s') \<and>
        intra_bucket_index (variable_locators s' ! p)
          < length (variable_indices (buckets s' ! bucket_index (variable_locators s' ! p))) \<and>
        variable_indices (buckets s' ! bucket_index (variable_locators s' ! p))
          ! intra_bucket_index (variable_locators s' ! p) = p)"
proof -
  let ?N = "length (replicas s ! 0)"
  let ?zs = "zip [0..<length bucket_indices] bucket_indices"
  from run have ne: "replicas s \<noteq> []"
    by (auto simp: initialize_buckets_def split: if_splits)
  from once have d: "distinct (concat bucket_indices)"
    by (metis distinct_upt mset_eq_imp_distinct_iff)
  from once have members: "set (concat bucket_indices) = {..<?N}"
    by (metis atLeast_upt mset_eq_setD)
  from initialize_buckets_built [OF run d]
  have bb: "buckets_built ?N (length (replicas s)) ?zs s'" .
  have fz: "map fst ?zs = [0..<length ?zs]" and sz: "map snd ?zs = bucket_indices"
    and lz: "length ?zs = length bucket_indices" by simp_all
  from bb have len: "length (variable_locators s') = ?N"
    and R: "length (replicas s') = length (replicas s)"
    and vi: "map variable_indices (buckets s') = bucket_indices"
    and ok: "\<forall>B\<in>set (buckets s'). bucket_ok (length (replicas s)) B"
    by (simp_all add: buckets_built_def)
  from bb d fz sz have loc: "\<forall>j<length bucket_indices. \<forall>i<length (bucket_indices ! j).
            bucket_indices ! j ! i < ?N \<and>
            variable_locators s' ! (bucket_indices ! j ! i)
              = \<lparr>bucket_index = j, intra_bucket_index = i\<rparr>"
    unfolding buckets_built_def by simp
  from vi have lb: "length (buckets s') = length bucket_indices" by (metis length_map)
  from vi have vj: "variable_indices (buckets s' ! j) = bucket_indices ! j"
    if "j < length bucket_indices" for j
    using that lb by (metis nth_map)
  have forward: "variable_indices (buckets s' ! j) ! i < length (variable_locators s') \<and>
        variable_locators s' ! (variable_indices (buckets s' ! j) ! i)
          = \<lparr>bucket_index = j, intra_bucket_index = i\<rparr>"
    if "j < length (buckets s')" "i < length (variable_indices (buckets s' ! j))" for j i
  proof -
    from that lb have j: "j < length bucket_indices" by simp
    from that(2) vj [OF j] have i: "i < length (bucket_indices ! j)" by simp
    from loc j i show ?thesis by (simp add: vj [OF j] len)
  qed
  have resolve: "bucket_index (variable_locators s' ! p) < length (buckets s') \<and>
        intra_bucket_index (variable_locators s' ! p)
          < length (variable_indices (buckets s' ! bucket_index (variable_locators s' ! p))) \<and>
        variable_indices (buckets s' ! bucket_index (variable_locators s' ! p))
          ! intra_bucket_index (variable_locators s' ! p) = p" if "p < ?N" for p
  proof -
    from that members have "p \<in> set (concat bucket_indices)" by blast
    then obtain b where b: "b \<in> set bucket_indices" "p \<in> set b" by auto
    then obtain j where j: "j < length bucket_indices" "bucket_indices ! j = b"
      by (auto simp: in_set_conv_nth)
    from b(2) obtain i where i: "i < length b" "b ! i = p" by (auto simp: in_set_conv_nth)
    from loc j i have "variable_locators s' ! p = \<lparr>bucket_index = j, intra_bucket_index = i\<rparr>"
      by auto
    with j i lb vj [OF j(1)] show ?thesis by simp
  qed
  from ne R len vi ok forward resolve show ?thesis
    by (intro conjI allI impI) simp_all
qed

text \<open>
  A successful \<^verbatim>\<open>initialize_buckets\<close> over every parameter index leaves a well-shaped
  reducer, the starting point of the iterations.
\<close>

lemma initialize_buckets_shape_ok:
  assumes run: "initialize_buckets u bucket_indices s = Inr s'"
    and once: "mset (concat bucket_indices) = mset [0..<length (replicas s ! 0)]"
  shows "shape_ok s'"
proof -
  note r = initialize_buckets_resolves [OF run once]
  from r have ne: "replicas s' \<noteq> []" and R: "length (replicas s') = length (replicas s)"
    and len: "length (variable_locators s') = length (replicas s ! 0)"
    by auto
  from r have ok: "\<forall>B\<in>set (buckets s'). bucket_ok (length (replicas s)) B" by (elim conjE)
  have bk: "variable_indices bucket \<noteq> [] \<and>
          length (bucket_replicas bucket) = length (replicas s') \<and>
          (\<forall>replica\<in>set (bucket_replicas bucket).
              length (variables replica) = length (variable_indices bucket))"
    if "bucket \<in> set (buckets s')" for bucket
    using ok that R by (auto simp: bucket_ok_def replica_ok_def)
  from r have fw: "\<forall>j<length (buckets s'). \<forall>i<length (variable_indices (buckets s' ! j)).
        variable_indices (buckets s' ! j) ! i < length (variable_locators s') \<and>
        variable_locators s' ! (variable_indices (buckets s' ! j) ! i)
          = \<lparr>bucket_index = j, intra_bucket_index = i\<rparr>" by (elim conjE)
  from r have bw: "\<forall>p<length (variable_locators s').
        bucket_index (variable_locators s' ! p) < length (buckets s') \<and>
        intra_bucket_index (variable_locators s' ! p)
          < length (variable_indices (buckets s' ! bucket_index (variable_locators s' ! p))) \<and>
        variable_indices (buckets s' ! bucket_index (variable_locators s' ! p))
          ! intra_bucket_index (variable_locators s' ! p) = p"
    unfolding len by (elim conjE)
  show ?thesis
    unfolding shape_ok_def
    by (intro conjI ballI ne fw bw bk [THEN conjunct1] bk [THEN conjunct2, THEN conjunct1]
          bk [THEN conjunct2, THEN conjunct2, THEN bspec])
qed



section \<open>The order of the launches\<close>












lemma other_update_replica [simp]:
  "next_bucket (update_replica b r f s) = next_bucket s"
  "collectives (update_replica b r f s) = collectives s"
  "length (buckets (update_replica b r f s)) = length (buckets s)"
  by (simp_all add: update_replica_def)

lemma other_update_bucket [simp]:
  "next_bucket (update_bucket b f s) = next_bucket s"
  "collectives (update_bucket b f s) = collectives s"
  "length (buckets (update_bucket b f s)) = length (buckets s)"
  by (simp_all add: update_bucket_def)

lemma shape_memory [simp]:
  "shape (s\<lparr>memory := m\<rparr>) = shape s"
  "pendings (s\<lparr>memory := m\<rparr>) = pendings s"
  by (simp_all add: shape_def pendings_def)



lemma queue_finalize_counters:
  "queue_finalize s = Inr s' \<Longrightarrow> unchanged_counters s s'"
  by (auto simp: queue_finalize_def unchanged_counters_def shape_def pendings_def
        bucket_launches_def Let_def split: if_splits)












































end
